theory Spec2Isabelle
  imports Complex_Main
begin

section \<open>Python strings\<close>

text \<open>
  A Python \<open>str\<close> is modelled as a \<open>string\<close> whose characters are the code points
  below 256. The helpers below are the \<open>str\<close> methods the sources call, on that range.
\<close>

definition isspace :: "char \<Rightarrow> bool" where
  \<comment> \<open>\<open>str.isspace\<close>, which is also what \<open>strip()\<close>, \<open>split()\<close> and the regex class
      \<open>\s\<close> use: TAB, LF, VT, FF, CR, FS, GS, RS, US, SPACE, NEL, NBSP.\<close>
  "isspace c = (c \<in> set [CHR 0x09, CHR 0x0A, CHR 0x0B, CHR 0x0C, CHR 0x0D, CHR 0x1C,
                           CHR 0x1D, CHR 0x1E, CHR 0x1F, CHR 0x20, CHR 0x85, CHR 0xA0])"

definition lower_char :: "char \<Rightarrow> char" where
  \<comment> \<open>\<open>str.lower\<close> on one code point below 256: A-Z and the Latin-1 capitals
      (0xC0-0xDE without the multiplication sign 0xD7) move up by 32.\<close>
  "lower_char c =
     (let n = (of_char c :: nat)
      in if (65 \<le> n \<and> n \<le> 90) \<or> (192 \<le> n \<and> n \<le> 222 \<and> n \<noteq> 215)
         then char_of (n + 32) else c)"

definition lower :: "string \<Rightarrow> string" where
  "lower s = map lower_char s"

definition strip :: "string \<Rightarrow> string" where
  "strip s = rev (dropWhile isspace (rev (dropWhile isspace s)))"

fun split_acc :: "string \<Rightarrow> string \<Rightarrow> string list" where
  "split_acc cur [] = (if cur = [] then [] else [cur])"
| "split_acc cur (c # cs) =
     (if isspace c then (if cur = [] then split_acc [] cs else cur # split_acc [] cs)
      else split_acc (cur @ [c]) cs)"

definition split :: "string \<Rightarrow> string list" where
  \<comment> \<open>\<open>s.split()\<close>: the maximal runs of non-whitespace characters.\<close>
  "split s = split_acc [] s"

fun join :: "string \<Rightarrow> string list \<Rightarrow> string" where
  "join sep [] = []"
| "join sep [w] = w"
| "join sep (w # v # ws) = w @ sep @ join sep (v # ws)"

primrec startswith :: "string \<Rightarrow> string \<Rightarrow> bool" where
  "startswith s [] = True"
| "startswith s (p # ps) = (case s of [] \<Rightarrow> False | c # cs \<Rightarrow> c = p \<and> startswith cs ps)"

fun contains :: "string \<Rightarrow> string \<Rightarrow> bool" where
  \<comment> \<open>\<open>sub in s\<close>\<close>
  "contains [] sub = (sub = [])"
| "contains (c # cs) sub = (startswith (c # cs) sub \<or> contains cs sub)"

definition count_char :: "char \<Rightarrow> string \<Rightarrow> nat" where
  \<comment> \<open>\<open>s.count(c)\<close> for a single character\<close>
  "count_char c s = length (filter (\<lambda>d. d = c) s)"


section \<open>Python exceptions\<close>

text \<open>
  A call that can raise returns a sum: \<open>Inl\<close> the exception, \<open>Inr\<close> the value. The
  exceptions are the ones the sources raise, catch or let through.
\<close>

datatype exn = NameError | ValueError | OverflowError | ZeroDivisionError | JSONDecodeError
  | Exception string

definition and_then :: "exn + 'a \<Rightarrow> ('a \<Rightarrow> exn + 'b) \<Rightarrow> exn + 'b" where
  \<comment> \<open>the next statement runs on the value; an exception leaves the block\<close>
  "and_then r f = (case r of Inl e \<Rightarrow> Inl e | Inr v \<Rightarrow> f v)"

section \<open>Python floats\<close>

text \<open>
  The scoring code divides and multiplies in binary64. \<open>Finite m e\<close> stands for
  \<open>m * 2 ^ e\<close>, with \<open>\<bar>m\<bar> < 2 ^ 53\<close> and \<open>- 1074 \<le> e \<le> 971\<close>; zero is \<open>Finite 0 0\<close> (the sign
  of a zero is not modelled: no operation here reads it). \<open>Inf s\<close> is the infinity, negative
  when \<open>s\<close> holds, and \<open>NaN\<close> the value that is not a number. Every operation rounds
  the exact result to the nearest float, ties to even, gradually below \<open>2 ^ - 1022\<close>, and
  to an infinity from \<open>2 ^ 1024 - 2 ^ 970\<close> on. Multiplication and division of floats
  return the infinity; \<open>float(n)\<close> and the division of two ints raise \<open>OverflowError\<close>
  instead, a division by zero raises \<open>ZeroDivisionError\<close>, and \<open>int(x)\<close> raises
  \<open>OverflowError\<close> on an infinity and \<open>ValueError\<close> on a NaN.
\<close>

datatype pyfloat = Finite int int | Inf bool | NaN

function bit_length :: "int \<Rightarrow> nat" where
  \<comment> \<open>\<open>n.bit_length()\<close> for \<open>n \<ge> 0\<close>\<close>
  "bit_length n = (if n \<le> 0 then 0 else Suc (bit_length (n div 2)))"
  by auto
termination
  by (relation "measure nat") auto

declare bit_length.simps [simp del]

definition round_half_even :: "int \<Rightarrow> int \<Rightarrow> int" where
  "round_half_even num den =
     (let q = num div den; r = num mod den
      in if 2 * r < den then q
         else if den < 2 * r then q + 1
         else if even q then q else q + 1)"

definition scale :: "int \<Rightarrow> int \<Rightarrow> int \<Rightarrow> int \<times> int" where
  \<comment> \<open>numerator and denominator of \<open>a / (b * 2 ^ e)\<close>\<close>
  "scale a b e = (if 0 \<le> e then (a, b * 2 ^ nat e) else (a * 2 ^ nat (- e), b))"

definition unit_exponent :: "int \<Rightarrow> int \<Rightarrow> int" where
  \<comment> \<open>the \<open>e\<close> with \<open>2 ^ 52 \<le> a / (b * 2 ^ e) < 2 ^ 53\<close>, for positive \<open>a\<close> and \<open>b\<close>\<close>
  "unit_exponent a b =
     (let e0 = int (bit_length a) - int (bit_length b) - 53
      in if snd (scale a b e0) * 2 ^ 53 \<le> fst (scale a b e0) then e0 + 1 else e0)"

definition round_rat :: "int \<Rightarrow> int \<Rightarrow> int \<Rightarrow> pyfloat" where
  \<comment> \<open>the float nearest to \<open>a / b * 2 ^ k\<close>, for positive \<open>a\<close> and \<open>b\<close>: the exponent is
      not below \<open>- 1074\<close>, and a significand that rounds up to \<open>2 ^ 53\<close> moves to the next
      exponent\<close>
  "round_rat a b k =
     (let e = max (unit_exponent a b + k) (- 1074);
          m = round_half_even (fst (scale a b (e - k))) (snd (scale a b (e - k)))
      in if m = 0 then Finite 0 0
         else if m = 2 ^ 53 then (if 971 < e + 1 then Inf False else Finite (2 ^ 52) (e + 1))
         else if 971 < e then Inf False else Finite m e)"


definition f_zero :: pyfloat where
  "f_zero = Finite 0 0"

fun f_neg :: "pyfloat \<Rightarrow> pyfloat" where
  "f_neg (Finite m e) = Finite (- m) e"
| "f_neg (Inf s) = Inf (\<not> s)"
| "f_neg NaN = NaN"

definition f_signed :: "bool \<Rightarrow> pyfloat \<Rightarrow> pyfloat" where
  "f_signed neg x = (if neg then f_neg x else x)"

definition f_of_int :: "int \<Rightarrow> pyfloat" where
  \<comment> \<open>the float nearest to an integer, an infinity when it is out of range\<close>
  "f_of_int n = (if n = 0 then f_zero else f_signed (n < 0) (round_rat \<bar>n\<bar> 1 0))"

definition float_of_int :: "int \<Rightarrow> exn + pyfloat" where
  \<comment> \<open>\<open>float(n)\<close> for a Python int\<close>
  "float_of_int n = (case f_of_int n of Inf s \<Rightarrow> Inl OverflowError | x \<Rightarrow> Inr x)"

definition f_lit :: "int \<Rightarrow> int \<Rightarrow> pyfloat" where
  \<comment> \<open>a positive decimal literal, given as a fraction: \<open>0.70\<close> is \<open>f_lit 70 100\<close>\<close>
  "f_lit a b = round_rat a b 0"

fun f_is_zero :: "pyfloat \<Rightarrow> bool" where
  \<comment> \<open>\<open>x == 0\<close>\<close>
  "f_is_zero (Finite m e) = (m = 0)"
| "f_is_zero x = False"

fun f_mul :: "pyfloat \<Rightarrow> pyfloat \<Rightarrow> pyfloat" where
  \<comment> \<open>\<open>x * y\<close>\<close>
  "f_mul (Finite m1 e1) (Finite m2 e2) =
     (if m1 = 0 \<or> m2 = 0 then f_zero
      else f_signed ((m1 < 0) \<noteq> (m2 < 0)) (round_rat \<bar>m1 * m2\<bar> 1 (e1 + e2)))"
| "f_mul (Finite m e) (Inf s) = (if m = 0 then NaN else Inf ((m < 0) \<noteq> s))"
| "f_mul (Inf s) (Finite m e) = (if m = 0 then NaN else Inf (s \<noteq> (m < 0)))"
| "f_mul (Inf s) (Inf t) = Inf (s \<noteq> t)"
| "f_mul NaN y = NaN"
| "f_mul x NaN = NaN"

fun f_quot :: "pyfloat \<Rightarrow> pyfloat \<Rightarrow> pyfloat" where
  \<comment> \<open>the quotient of \<open>x\<close> by a \<open>y\<close> that is not zero\<close>
  "f_quot (Finite m1 e1) (Finite m2 e2) =
     (if m1 = 0 then f_zero
      else f_signed ((m1 < 0) \<noteq> (m2 < 0)) (round_rat \<bar>m1\<bar> \<bar>m2\<bar> (e1 - e2)))"
| "f_quot (Finite m e) (Inf s) = f_zero"
| "f_quot (Inf s) (Finite m e) = Inf (s \<noteq> (m < 0))"
| "f_quot (Inf s) (Inf t) = NaN"
| "f_quot NaN y = NaN"
| "f_quot x NaN = NaN"

definition f_div :: "pyfloat \<Rightarrow> pyfloat \<Rightarrow> exn + pyfloat" where
  \<comment> \<open>\<open>x / y\<close> on two floats\<close>
  "f_div x y = (if f_is_zero y then Inl ZeroDivisionError else Inr (f_quot x y))"

definition int_div :: "int \<Rightarrow> int \<Rightarrow> exn + pyfloat" where
  \<comment> \<open>\<open>a / b\<close> on two Python ints: the correctly rounded quotient\<close>
  "int_div a b =
     (if b = 0 then Inl ZeroDivisionError
      else if a = 0 then Inr f_zero
      else case f_signed ((a < 0) \<noteq> (b < 0)) (round_rat \<bar>a\<bar> \<bar>b\<bar> 0) of
             Inf s \<Rightarrow> Inl OverflowError
           | q \<Rightarrow> Inr q)"

fun f_trunc :: "pyfloat \<Rightarrow> exn + int" where
  \<comment> \<open>\<open>int(x)\<close>: truncation towards zero\<close>
  "f_trunc (Finite m e) =
     Inr (if 0 \<le> e then m * 2 ^ nat e else sgn m * (\<bar>m\<bar> div 2 ^ nat (- e)))"
| "f_trunc (Inf s) = Inl OverflowError"
| "f_trunc NaN = Inl ValueError"

fun f_le :: "pyfloat \<Rightarrow> pyfloat \<Rightarrow> bool" where
  \<comment> \<open>\<open>x <= y\<close>; every comparison with a NaN is false\<close>
  "f_le (Finite m1 e1) (Finite m2 e2) =
     (m1 * 2 ^ nat (e1 - min e1 e2) \<le> m2 * 2 ^ nat (e2 - min e1 e2))"
| "f_le (Finite m e) (Inf t) = (\<not> t)"
| "f_le (Inf s) (Finite m e) = s"
| "f_le (Inf s) (Inf t) = (s \<or> \<not> t)"
| "f_le NaN y = False"
| "f_le x NaN = False"

fun f_less :: "pyfloat \<Rightarrow> pyfloat \<Rightarrow> bool" where
  \<comment> \<open>\<open>x < y\<close>\<close>
  "f_less (Finite m1 e1) (Finite m2 e2) =
     (m1 * 2 ^ nat (e1 - min e1 e2) < m2 * 2 ^ nat (e2 - min e1 e2))"
| "f_less (Finite m e) (Inf t) = (\<not> t)"
| "f_less (Inf s) (Finite m e) = s"
| "f_less (Inf s) (Inf t) = (s \<and> \<not> t)"
| "f_less NaN y = False"
| "f_less x NaN = False"

section \<open>Skill normalisation (matching\_engine.py)\<close>

definition is_lower_alnum_space :: "char \<Rightarrow> bool" where
  \<comment> \<open>the characters the substitution \<open>[^a-z0-9\s]\<close> keeps\<close>
  "is_lower_alnum_space c =
     (c \<in> set ''abcdefghijklmnopqrstuvwxyz0123456789'' \<or> isspace c)"

definition normalize_skill :: "string \<Rightarrow> string" where
  "normalize_skill skill =
     (if skill = [] then []
      else join '' '' (split (filter is_lower_alnum_space (strip (lower skill)))))"

section \<open>The alias tables and the group lookup (skills\_analogy.py)\<close>

type_synonym skill_table = "(string \<times> string list) list"

text \<open>
  The category dictionaries that \<open>get_skill_group\<close> searches, in the order of their
  entries. Of the ten names the function lists, the module assigns these seven.
\<close>

definition PROGRAMMING :: skill_table where
  "PROGRAMMING =
    [(''python'', [''py'', ''python3'', ''python 3'']),
     (''javascript'', [''js'', ''nodejs'', ''node.js'', ''typescript'', ''ts'']),
     (''typescript'', [''ts'', ''javascript'', ''js'']),
     (''java'', [''springboot'', ''spring'', ''j2ee'']),
     (''c++'', [''cpp'', ''c plus plus'']),
     (''c#'', [''csharp'', ''c sharp'', ''.net'']),
     (''php'', [''laravel'', ''symfony'']),
     (''golang'', [''go'']),
     (''rust'', [''rustlang'']),
     (''kotlin'', [''android'']),
     (''swift'', [''ios'', ''objective-c'', ''objc'']),
     (''ruby'', [''ruby on rails'', ''ror'']),
     (''scala'', [''spark'', ''big data'']),
     (''r'', [''rstudio''])]"

definition WEB_FRONTEND :: skill_table where
  "WEB_FRONTEND =
    [(''react'', [''reactjs'', ''react.js'', ''jsx'', ''react native'']),
     (''angular'', [''angularjs'', ''angular.js'', ''ng'']),
     (''vue'', [''vuejs'', ''vue.js'']),
     (''next.js'', [''nextjs'', ''next'']),
     (''nuxt'', [''nuxtjs'']),
     (''svelte'', [''sveltekit'']),
     (''html'', [''html5'', ''markup'']),
     (''css'', [''styling'', ''sass'', ''scss'', ''less'', ''postcss'']),
     (''sass'', [''scss'', ''css'']),
     (''bootstrap'', [''css framework'', ''frontend framework'']),
     (''tailwind'', [''tailwind css'', ''utility css''])]"

definition BACKEND :: skill_table where
  "BACKEND =
    [(''nodejs'', [''node.js'', ''node'', ''javascript'', ''js'']),
     (''express'', [''express.js'', ''nodejs'']),
     (''django'', [''python'', ''drf'']),
     (''flask'', [''python'', ''microframework'']),
     (''spring'', [''springboot'', ''java'', ''spring boot'']),
     (''fastapi'', [''python'', ''async api'']),
     (''rest'', [''restful'', ''rest api'', ''api'']),
     (''graphql'', [''api'', ''query language'']),
     (''soap'', [''web service''])]"

definition DATABASES :: skill_table where
  "DATABASES =
    [(''sql'', [''mysql'', ''postgresql'', ''postgres'', ''t-sql'', ''tsql'', ''sql server'', ''oracle'', ''mariadb'']),
     (''mysql'', [''sql'', ''mariadb'', ''percona'']),
     (''postgresql'', [''postgres'', ''sql'', ''pg'']),
     (''mongodb'', [''nosql'', ''document database'', ''mongo'']),
     (''redis'', [''cache'', ''in-memory'', ''nosql'', ''key-value'']),
     (''cassandra'', [''nosql'', ''distributed database'']),
     (''elasticsearch'', [''search'', ''elk'', ''opensearch'']),
     (''firebase'', [''realtime database'', ''backend as service'']),
     (''dynamodb'', [''nosql'', ''aws'']),
     (''oracle'', [''sql'', ''database'', ''relational'']),
     (''sqlite'', [''sql'', ''lightweight database''])]"

definition CLOUD_DEVOPS :: skill_table where
  "CLOUD_DEVOPS =
    [(''aws'', [''amazon'', ''amazon web services'', ''ec2'', ''s3'', ''lambda'', ''rds'', ''ecs'', ''cloudformation'']),
     (''azure'', [''microsoft'', ''microsoft azure'', ''cosmos db'', ''app service'']),
     (''gcp'', [''google cloud'', ''google'', ''bigquery'', ''cloud functions'', ''cloud storage'']),
     (''kubernetes'', [''k8s'', ''container orchestration'', ''docker'']),
     (''docker'', [''containers'', ''containerization'', ''docker compose'']),
     (''jenkins'', [''ci/cd'', ''continuous integration'', ''automation'', ''devops'']),
     (''gitlab'', [''ci/cd'', ''git'', ''github'', ''version control'', ''devops'']),
     (''github'', [''git'', ''gitlab'', ''version control'', ''scm'']),
     (''github actions'', [''ci/cd'', ''automation'']),
     (''terraform'', [''infrastructure as code'', ''iac'', ''aws'', ''infrastructure'']),
     (''ansible'', [''infrastructure'', ''automation'', ''devops'', ''configuration management'']),
     (''argocd'', [''gitops'', ''continuous delivery'']),
     (''helm'', [''kubernetes'', ''package manager'']),
     (''git'', [''github'', ''gitlab'', ''bitbucket'', ''version control'', ''scm''])]"

definition DATA_ML :: skill_table where
  "DATA_ML =
    [(''tensorflow'', [''machine learning'', ''ml'', ''deep learning'', ''keras'']),
     (''pytorch'', [''machine learning'', ''ml'', ''deep learning'', ''torch'']),
     (''scikit-learn'', [''machine learning'', ''ml'', ''sklearn'']),
     (''pandas'', [''data analysis'', ''python'', ''data science'']),
     (''numpy'', [''data analysis'', ''python'', ''data science'']),
     (''spark'', [''big data'', ''apache spark'', ''scala'', ''pyspark'']),
     (''hadoop'', [''big data'', ''mapreduce'', ''hdfs'']),
     (''airflow'', [''data pipeline'', ''workflow orchestration'']),
     (''dbt'', [''data transformation'', ''analytics engineering'']),
     (''tableau'', [''data visualization'', ''business intelligence'', ''bi'']),
     (''powerbi'', [''data visualization'', ''business intelligence'', ''bi'', ''microsoft'']),
     (''looker'', [''data visualization'', ''business intelligence'']),
     (''analytics'', [''data analytics'', ''business analytics''])]"

definition BUSINESS_SKILLS :: skill_table where
  "BUSINESS_SKILLS =
    [(''communication'', [''interpersonal'', ''presentation'', ''writing'', ''public speaking'']),
     (''leadership'', [''management'', ''team leadership'', ''people management'', ''executive'']),
     (''management'', [''leadership'', ''team management'', ''people management'']),
     (''team management'', [''leadership'', ''management'', ''team leadership'']),
     (''people management'', [''leadership'', ''management'', ''hr'']),
     (''problem solving'', [''analytical'', ''troubleshooting'', ''critical thinking'']),
     (''analytical'', [''problem solving'', ''data analysis'', ''research'']),
     (''critical thinking'', [''problem solving'', ''analysis'']),
     (''stakeholder management'', [''communication'', ''relationship management'']),
     (''relationship management'', [''stakeholder management'', ''communication'']),
     (''time management'', [''organization'', ''planning'', ''productivity'']),
     (''organization'', [''time management'', ''planning'', ''process improvement'']),
     (''planning'', [''strategy'', ''organization'', ''project planning'']),
     (''strategy'', [''strategic planning'', ''business strategy'', ''planning'']),
     (''strategic planning'', [''strategy'', ''business planning'']),
     (''business acumen'', [''business knowledge'', ''understanding'']),
     (''decision making'', [''analysis'', ''judgment'', ''leadership'']),
     (''documentation'', [''writing'', ''technical writing'', ''reporting'']),
     (''reporting'', [''documentation'', ''analytics'', ''communication'']),
     (''research'', [''analysis'', ''investigation'', ''data'']),
     (''presentation skills'', [''communication'', ''public speaking'']),
     (''public speaking'', [''presentation'', ''communication'']),
     (''writing'', [''documentation'', ''communication'', ''content'']),
     (''listening'', [''communication'', ''interpersonal'']),
     (''teamwork'', [''collaboration'', ''team work'']),
     (''collaboration'', [''teamwork'', ''communication'']),
     (''adaptability'', [''flexibility'', ''learning'']),
     (''flexibility'', [''adaptability'', ''change management'']),
     (''attention to detail'', [''quality'', ''accuracy'']),
     (''multitasking'', [''time management'', ''productivity'']),
     (''reliability'', [''dependability'', ''accountability'']),
     (''accountability'', [''responsibility'', ''reliability'']),
     (''creativity'', [''innovation'', ''design thinking'']),
     (''innovation'', [''creativity'', ''new ideas'']),
     (''customer focus'', [''customer service'', ''customer satisfaction'']),
     (''result oriented'', [''performance'', ''achievement'']),
     (''performance'', [''achievement'', ''result oriented''])]"

text \<open>
  The other three names of the list, \<open>TESTING\<close>, \<open>AI_ML_ADVANCED\<close> and \<open>SOFT_SKILLS\<close>, are
  global names that Python looks up when the list is built. The lookup is a field of the
  module's namespace: \<open>None\<close> for a name that has no binding, which is a \<open>NameError\<close>.
\<close>

record py_globals =
  TESTING :: "skill_table option"
  AI_ML_ADVANCED :: "skill_table option"
  SOFT_SKILLS :: "skill_table option"

definition skills_analogy_globals :: py_globals where
  \<comment> \<open>skills\_analogy.py as it is: none of the three names is ever assigned\<close>
  "skills_analogy_globals =
     \<lparr>TESTING = None, AI_ML_ADVANCED = None, SOFT_SKILLS = None\<rparr>"

definition all_categories :: "py_globals \<Rightarrow> exn + skill_table list" where
  "all_categories g =
     (case TESTING g of None \<Rightarrow> Inl NameError
      | Some testing \<Rightarrow>
     (case AI_ML_ADVANCED g of None \<Rightarrow> Inl NameError
      | Some ai_ml \<Rightarrow>
     (case SOFT_SKILLS g of None \<Rightarrow> Inl NameError
      | Some soft \<Rightarrow>
        Inr [PROGRAMMING, WEB_FRONTEND, BACKEND, DATABASES, CLOUD_DEVOPS,
             DATA_ML, testing, ai_ml, soft, BUSINESS_SKILLS])))"

fun search_category :: "skill_table \<Rightarrow> string \<Rightarrow> string option" where
  "search_category [] skill_lower = None"
| "search_category ((primary, aliases) # rest) skill_lower =
     (if skill_lower = lower primary then Some (lower primary)
      else if skill_lower \<in> set (map lower aliases) then Some (lower primary)
      else search_category rest skill_lower)"

fun search_categories :: "skill_table list \<Rightarrow> string \<Rightarrow> string option" where
  "search_categories [] skill_lower = None"
| "search_categories (category # rest) skill_lower =
     (case search_category category skill_lower of
        Some primary \<Rightarrow> Some primary
      | None \<Rightarrow> search_categories rest skill_lower)"

definition replace_char :: "char \<Rightarrow> string \<Rightarrow> string \<Rightarrow> string" where
  \<comment> \<open>\<open>s.replace(c, new)\<close> for a single character \<open>c\<close>\<close>
  "replace_char c new s = concat (map (\<lambda>d. if d = c then new else [d]) s)"

definition get_skill_group :: "py_globals \<Rightarrow> string \<Rightarrow> exn + string option" where
  "get_skill_group g skill_name =
     (if skill_name = [] then Inr None
      else let skill_lower = replace_char CHR ''-'' '' '' (replace_char CHR ''.'' [] (strip (lower skill_name)))
           in case all_categories g of
                Inl e \<Rightarrow> Inl e
              | Inr categories \<Rightarrow> Inr (search_categories categories skill_lower))"

section \<open>The similarity ratio (difflib.SequenceMatcher)\<close>

text \<open>
  \<open>SequenceMatcher(None, a, b).ratio()\<close> of the standard library, as its algorithm is
  written: the longest matching block, earliest in \<open>a\<close> and then earliest in \<open>b\<close>, found by
  rows over the characters of \<open>b\<close> that are not popular, then extended on both sides; the
  same search left and right of the block; twice the matched characters over the two
  lengths. No junk predicate is given, so only the popularity rule for a \<open>b\<close> of 200 or
  more characters removes characters from the rows.
\<close>

definition popular :: "string \<Rightarrow> string" where
  "popular b =
     (if 200 \<le> length b
      then filter (\<lambda>c. length b div 100 + 1 < count_char c b) (remdups b)
      else [])"

definition new_row :: "char \<Rightarrow> string \<Rightarrow> string \<Rightarrow> nat list \<Rightarrow> nat list" where
  \<comment> \<open>\<open>newj2len\<close>: entry \<open>j\<close> is the length of the match that ends at this row and at \<open>b[j]\<close>\<close>
  "new_row x bs pop prev =
     map (\<lambda>(y, p). if y = x \<and> x \<notin> set pop then Suc p else 0) (zip bs (0 # prev))"

fun scan_row :: "nat \<Rightarrow> nat list \<Rightarrow> nat \<Rightarrow> nat \<times> nat \<times> nat \<Rightarrow> nat \<times> nat \<times> nat" where
  "scan_row i [] j best = best"
| "scan_row i (k # ks) j (besti, bestj, bestsize) =
     scan_row i ks (Suc j)
       (if bestsize < k then (Suc i - k, Suc j - k, k) else (besti, bestj, bestsize))"

fun scan_rows ::
  "string \<Rightarrow> string \<Rightarrow> string \<Rightarrow> nat \<Rightarrow> nat list \<Rightarrow> nat \<times> nat \<times> nat \<Rightarrow> nat \<times> nat \<times> nat" where
  "scan_rows [] bs pop i prev best = best"
| "scan_rows (x # xs) bs pop i prev best =
     scan_rows xs bs pop (Suc i) (new_row x bs pop prev)
       (scan_row i (new_row x bs pop prev) 0 best)"

definition common_prefix :: "string \<Rightarrow> string \<Rightarrow> nat" where
  "common_prefix xs ys = length (takeWhile (\<lambda>(x, y). x = y) (zip xs ys))"

definition extend_match :: "string \<Rightarrow> string \<Rightarrow> nat \<times> nat \<times> nat \<Rightarrow> nat \<times> nat \<times> nat" where
  \<comment> \<open>the two loops that grow the block backwards and forwards over equal characters\<close>
  "extend_match as bs best =
     (case best of (besti, bestj, bestsize) \<Rightarrow>
        let back = common_prefix (rev (take besti as)) (rev (take bestj bs));
            fwd = common_prefix (drop (besti + bestsize) as) (drop (bestj + bestsize) bs)
        in (besti - back, bestj - back, bestsize + back + fwd))"

definition find_longest_match :: "string \<Rightarrow> string \<Rightarrow> string \<Rightarrow> nat \<times> nat \<times> nat" where
  "find_longest_match as bs pop = extend_match as bs (scan_rows as bs pop 0 (replicate (length bs) 0) (0, 0, 0))"

function matching_total :: "string \<Rightarrow> string \<Rightarrow> string \<Rightarrow> nat" where
  \<comment> \<open>the sum of the sizes of \<open>get_matching_blocks()\<close>\<close>
  "matching_total as bs pop =
     (case find_longest_match as bs pop of (i, j, k) \<Rightarrow>
        if k = 0 then 0
        else k
           + (if 0 < i \<and> 0 < j then matching_total (take i as) (take j bs) pop else 0)
           + (if i + k < length as \<and> j + k < length bs
              then matching_total (drop (i + k) as) (drop (j + k) bs) pop else 0))"
  by pat_completeness auto

text \<open>The block search stays inside \<open>a\<close>, so the search to its left is on a shorter string.\<close>

lemma new_row_le: "\<forall>p\<in>set prev. p \<le> i \<Longrightarrow> \<forall>k\<in>set (new_row x bs pop prev). k \<le> Suc i"
  unfolding new_row_def by (auto dest!: set_zip_rightD)

lemma scan_row_bound:
  "\<forall>k\<in>set row. k \<le> Suc i \<Longrightarrow> fst best + snd (snd best) \<le> Suc i \<Longrightarrow>
   fst (scan_row i row j best) + snd (snd (scan_row i row j best)) \<le> Suc i"
  by (induction i row j best rule: scan_row.induct) auto

lemma scan_rows_bound:
  "\<forall>p\<in>set prev. p \<le> i \<Longrightarrow> fst best + snd (snd best) \<le> i \<Longrightarrow>
   fst (scan_rows xs bs pop i prev best) + snd (snd (scan_rows xs bs pop i prev best)) \<le> i + length xs"
proof (induction xs arbitrary: i prev best)
  case Nil
  then show ?case by simp
next
  case (Cons x xs)
  have r: "\<forall>k\<in>set (new_row x bs pop prev). k \<le> Suc i"
    using Cons.prems(1) by (rule new_row_le)
  have b: "fst (scan_row i (new_row x bs pop prev) 0 best)
           + snd (snd (scan_row i (new_row x bs pop prev) 0 best)) \<le> Suc i"
    using r Cons.prems(2) by (intro scan_row_bound) auto
  show ?case using Cons.IH [OF r b] by simp
qed

lemma common_prefix_le: "common_prefix xs ys \<le> length xs"
  unfolding common_prefix_def
  by (rule order_trans [OF length_takeWhile_le]) simp

lemma find_longest_match_bound:
  assumes "find_longest_match as bs pop = (i, j, k)"
  shows "i + k \<le> length as"
proof -
  obtain bi bj bk where s: "scan_rows as bs pop 0 (replicate (length bs) 0) (0, 0, 0) = (bi, bj, bk)"
    by (cases "scan_rows as bs pop 0 (replicate (length bs) 0) (0, 0, 0)") auto
  have "fst (scan_rows as bs pop 0 (replicate (length bs) 0) (0, 0, 0)) + snd (snd (scan_rows as bs pop 0 (replicate (length bs) 0) (0, 0, 0))) \<le> 0 + length as"
    by (rule scan_rows_bound) auto
  then have b: "bi + bk \<le> length as" using s by simp
  have bk_le: "common_prefix (rev (take bi as)) (rev (take bj bs)) \<le> bi"
    using common_prefix_le [of "rev (take bi as)" "rev (take bj bs)"] by simp
  have fw_le: "common_prefix (drop (bi + bk) as) (drop (bj + bk) bs) \<le> length as - (bi + bk)"
    using common_prefix_le [of "drop (bi + bk) as" "drop (bj + bk) bs"] by simp
  show ?thesis
    using assms b bk_le fw_le unfolding find_longest_match_def extend_match_def s
    by (auto simp: Let_def)
qed

termination matching_total
  by (relation "measure (\<lambda>(as, bs, pop). length as)")
     (auto dest!: find_longest_match_bound [OF sym])

definition ratio :: "string \<Rightarrow> string \<Rightarrow> pyfloat" where
  \<comment> \<open>\<open>2.0 * matches / length\<close> under the test \<open>if length\<close>, so the division is by a
      length that is not zero; \<open>1.0\<close> for two empty strings\<close>
  "ratio a b =
     (let matches = matching_total a b (popular b); len = length a + length b
      in if len = 0 then f_of_int 1
         else f_quot (f_mul (f_of_int 2) (f_of_int (int matches))) (f_of_int (int len)))"

section \<open>The skill resolver (matching\_engine.py)\<close>

datatype match_type = Invalid | Exact | Analogy | Fuzzy | Substring | No_match

definition truthy_group :: "string option \<Rightarrow> bool" where
  "truthy_group grp = (case grp of None \<Rightarrow> False | Some s \<Rightarrow> s \<noteq> [])"

definition same_group :: "py_globals \<Rightarrow> string \<Rightarrow> string \<Rightarrow> bool" where
  \<comment> \<open>the \<open>try\<close> block of strategy 2 returns; any exception in it is swallowed by the bare
      \<open>except: pass\<close>\<close>
  "same_group g candidate_skill required_skill =
     (case get_skill_group g candidate_skill of
        Inl e \<Rightarrow> False
      | Inr cand_group \<Rightarrow>
          (case get_skill_group g required_skill of
             Inl e \<Rightarrow> False
           | Inr req_group \<Rightarrow>
               truthy_group cand_group \<and> truthy_group req_group \<and> cand_group = req_group))"

definition find_skill_match :: "py_globals \<Rightarrow> string \<Rightarrow> string \<Rightarrow> bool \<times> match_type \<times> pyfloat" where
  \<comment> \<open>with the default \<open>similarity_threshold=0.70\<close>, which every caller uses\<close>
  "find_skill_match g candidate_skill required_skill =
     (let cand_norm = normalize_skill candidate_skill;
          req_norm = normalize_skill required_skill
      in if cand_norm = [] \<or> req_norm = [] then (False, Invalid, f_zero)
         else if cand_norm = req_norm then (True, Exact, f_of_int 1)
         else if same_group g candidate_skill required_skill then (True, Analogy, f_lit 95 100)
         else if f_le (f_lit 70 100) (ratio cand_norm req_norm)
              then (True, Fuzzy, ratio cand_norm req_norm)
         else if 3 < length req_norm \<and> 3 < length cand_norm
                 \<and> (contains req_norm cand_norm \<or> contains cand_norm req_norm)
              then (True, Substring, f_lit 88 100)
         else (False, No_match, f_zero))"

section \<open>The scoring engine (matching\_engine.py)\<close>

text \<open>
  The scoring functions read normalised records. A record is the dictionary with its
  scored keys typed as the normaliser leaves them: the years are Python ints (\<open>None\<close> for
  a key that is absent or null), an education entry is a dictionary with an optional
  \<open>degree\<close> or a bare string, a skill is a dictionary with an optional \<open>name\<close> or a bare
  string. The \<open>details\<close> sentences, the \<open>recommendations\<close> list that repeats them and the
  rounded confidence in \<open>skillMatchDetails\<close> are texts formatted from the values below;
  they are not part of the model.
\<close>

datatype degree_field = Absent | Null | Degree string

datatype edu_item = EduDict degree_field | EduStr string

datatype skill_item = SkillDict "string option" | SkillStr string

record resume_data =
  totalYearsExperience :: "int option"
  education :: "edu_item list"
  skills :: "skill_item list"

record jd_data =
  minExperienceYears :: "int option"
  requiredEducation :: degree_field
  requiredSkills :: "string list"

record dimension_result =
  met :: bool
  score :: int
  percentage :: int

record experience_result = dimension_result +
  candidateExperience :: int
  requiredExperience :: int

record education_result = dimension_result +
  candidateDegree :: string
  requiredDegree :: "string option"
  isOverqualified :: bool

record skills_result = dimension_result +
  candidateSkillsCount :: nat
  requiredSkillsCount :: nat
  matchedSkills :: "string list"
  missingSkills :: "string list"
  skillMatchDetails :: "(string \<times> string option \<times> match_type option) list"
  allCandidateSkills :: "string list"

subsection \<open>Experience\<close>

definition or_zero :: "int option \<Rightarrow> int" where
  \<comment> \<open>\<open>d.get(key, 0) or 0\<close>\<close>
  "or_zero v = (case v of None \<Rightarrow> 0 | Some n \<Rightarrow> n)"

definition experience_years :: "resume_data \<Rightarrow> jd_data \<Rightarrow> pyfloat \<times> pyfloat" where
  \<comment> \<open>the \<open>try\<close> block: both values are 0 when either conversion raises\<close>
  "experience_years resume jd =
     (case float_of_int (or_zero (totalYearsExperience resume)) of
        Inl e \<Rightarrow> (f_zero, f_zero)
      | Inr candidate_years \<Rightarrow>
          (case float_of_int (or_zero (minExperienceYears jd)) of
             Inl e \<Rightarrow> (f_zero, f_zero)
           | Inr required_years \<Rightarrow> (candidate_years, required_years)))"

definition float_share :: "pyfloat \<Rightarrow> pyfloat \<Rightarrow> int \<Rightarrow> exn + int" where
  \<comment> \<open>\<open>int((candidate_years / required_years) * k) if required_years > 0 else 0\<close>\<close>
  "float_share candidate_years required_years k =
     (if f_less f_zero required_years
      then and_then (f_div candidate_years required_years)
             (\<lambda>q. f_trunc (f_mul q (f_of_int k)))
      else Inr 0)"

definition experience_result_of :: "pyfloat \<Rightarrow> pyfloat \<Rightarrow> exn + experience_result" where
  \<comment> \<open>the function from \<open>met = candidate_years >= required_years\<close> on: the percentage is
      computed before the score, and both before the two years are truncated\<close>
  "experience_result_of candidate_years required_years =
     and_then
       (if f_is_zero required_years then Inr (35, 100)
        else if f_le required_years candidate_years then Inr (35, 100)
        else and_then (float_share candidate_years required_years 100) (\<lambda>pct.
             and_then (float_share candidate_years required_years 35) (\<lambda>sc.
             Inr (max 1 sc, pct))))
       (\<lambda>(sc, pct).
          and_then (f_trunc candidate_years) (\<lambda>candidate_experience.
          and_then (f_trunc required_years) (\<lambda>required_experience.
          Inr \<lparr>met = f_le required_years candidate_years,
               score = sc,
               percentage = min 100 pct,
               candidateExperience = candidate_experience,
               requiredExperience = required_experience\<rparr>)))"

definition check_experience_match :: "resume_data \<Rightarrow> jd_data \<Rightarrow> exn + experience_result" where
  "check_experience_match resume jd =
     (case experience_years resume jd of
        (candidate_years, required_years) \<Rightarrow> experience_result_of candidate_years required_years)"

subsection \<open>Education\<close>

definition EDUCATION_HIERARCHY :: "(string \<times> int) list" where
  "EDUCATION_HIERARCHY =
     [(''phd'', 4), (''doctorate'', 4), (''master'', 3), (''m.tech'', 3), (''mba'', 3),
      (''bachelor'', 2), (''b.tech'', 2), (''b.s'', 2), (''b.a'', 2), (''diploma'', 1),
      (''high school'', 0)]"

definition normalize_education :: "string option \<Rightarrow> string \<times> int" where
  "normalize_education degree =
     (case degree of
        None \<Rightarrow> (''not specified'', 0)
      | Some d \<Rightarrow>
          if d = [] then (''not specified'', 0)
          else (case find (\<lambda>(key, v). contains (strip (lower d)) key) EDUCATION_HIERARCHY of
                  Some (key, v) \<Rightarrow> (key, v)
                | None \<Rightarrow> (strip (lower d), 0)))"

definition get_degree :: "degree_field \<Rightarrow> string option" where
  \<comment> \<open>\<open>d.get(key, 'not specified')\<close>\<close>
  "get_degree f = (case f of Absent \<Rightarrow> Some ''not specified'' | Null \<Rightarrow> None | Degree d \<Rightarrow> Some d)"

definition degree_str :: "edu_item \<Rightarrow> string option" where
  "degree_str edu_item =
     (case edu_item of
        EduDict f \<Rightarrow> get_degree f
      | EduStr t \<Rightarrow> Some (if t = [] then ''not specified'' else t))"

fun highest_education :: "edu_item list \<Rightarrow> int \<times> string option \<Rightarrow> int \<times> string option" where
  \<comment> \<open>the loop over the entries, on \<open>(highest_level, highest_degree)\<close>\<close>
  "highest_education [] acc = acc"
| "highest_education (edu_item # rest) (highest_level, highest_degree) =
     highest_education rest
       (if highest_level < snd (normalize_education (degree_str edu_item))
        then (snd (normalize_education (degree_str edu_item)), degree_str edu_item)
        else (highest_level, highest_degree))"

definition candidate_education :: "resume_data \<Rightarrow> int \<times> string" where
  \<comment> \<open>\<open>(candidate_level, candidate_degree)\<close>\<close>
  "candidate_education resume =
     (case highest_education (education resume) (0, Some ''not specified'') of
        (level, deg) \<Rightarrow> (level, case deg of None \<Rightarrow> ''not specified'' | Some d \<Rightarrow> d))"

definition int_share :: "int \<Rightarrow> int \<Rightarrow> int \<Rightarrow> exn + int" where
  \<comment> \<open>\<open>int((a / b) * k) if b > 0 else 0\<close> on two ints: the levels of the education check,
      the two list lengths of the skills check\<close>
  "int_share a b k =
     (if 0 < b then and_then (int_div a b) (\<lambda>q. f_trunc (f_mul q (f_of_int k))) else Inr 0)"

definition check_education_match :: "resume_data \<Rightarrow> jd_data \<Rightarrow> exn + education_result" where
  "check_education_match resume jd =
     (let candidate_level = fst (candidate_education resume);
          required_degree = get_degree (requiredEducation jd);
          required_level = snd (normalize_education required_degree)
      in and_then
           (if required_level = 0 \<or> required_degree = Some ''not specified'' then Inr (25, 100)
            else if required_level \<le> candidate_level then Inr (25, 100)
            else and_then (int_share candidate_level required_level 100) (\<lambda>pct.
                 and_then (int_share candidate_level required_level 25) (\<lambda>sc.
                 Inr (max 1 sc, pct))))
           (\<lambda>(sc, pct).
              Inr \<lparr>met = (required_level \<le> candidate_level),
                   score = sc,
                   percentage = min 100 pct,
                   candidateDegree = snd (candidate_education resume),
                   requiredDegree = required_degree,
                   isOverqualified = (required_level < candidate_level \<and> 0 < required_level)\<rparr>))"

subsection \<open>Skills\<close>

definition skill_name :: "skill_item \<Rightarrow> string" where
  "skill_name skill =
     (case skill of
        SkillDict nm \<Rightarrow> strip (case nm of None \<Rightarrow> [] | Some n \<Rightarrow> n)
      | SkillStr t \<Rightarrow> (if t = [] then [] else strip t))"

definition candidate_skills :: "resume_data \<Rightarrow> string list" where
  "candidate_skills resume = filter (\<lambda>n. n \<noteq> []) (map skill_name (skills resume))"

definition required_skills :: "jd_data \<Rightarrow> string list" where
  "required_skills jd = map strip (filter (\<lambda>t. t \<noteq> [] \<and> strip t \<noteq> []) (requiredSkills jd))"

fun best_candidate ::
  "py_globals \<Rightarrow> string \<Rightarrow> string list \<Rightarrow> bool \<times> string option \<times> match_type option \<times> pyfloat
     \<Rightarrow> bool \<times> string option \<times> match_type option \<times> pyfloat" where
  \<comment> \<open>the inner loop, on \<open>(skill_found, best_match, best_match_type, best_confidence)\<close>\<close>
  "best_candidate g req_skill [] acc = acc"
| "best_candidate g req_skill (cand_skill # rest) (skill_found, best_match, best_match_type, best_confidence) =
     best_candidate g req_skill rest
       (case find_skill_match g cand_skill req_skill of (is_match, mtype, confidence) \<Rightarrow>
          if is_match
          then (if f_less best_confidence confidence
                then (True, Some cand_skill, Some mtype, confidence)
                else (True, best_match, best_match_type, best_confidence))
          else (skill_found, best_match, best_match_type, best_confidence))"

fun match_required ::
  "py_globals \<Rightarrow> string list \<Rightarrow> string list
     \<Rightarrow> string list \<times> string list \<times> (string \<times> string option \<times> match_type option) list
     \<Rightarrow> string list \<times> string list \<times> (string \<times> string option \<times> match_type option) list" where
  \<comment> \<open>the outer loop, on \<open>(matched_skills, missing_skills, skill_match_details)\<close>\<close>
  "match_required g cands [] acc = acc"
| "match_required g cands (req_skill # rest) (matched, missing, details) =
     match_required g cands rest
       (case best_candidate g req_skill cands (False, None, None, f_zero) of
          (skill_found, best_match, best_match_type, best_confidence) \<Rightarrow>
            if skill_found
            then (matched @ [req_skill], missing, details @ [(req_skill, best_match, best_match_type)])
            else (matched, missing @ [req_skill], details))"

definition check_skills_match :: "py_globals \<Rightarrow> resume_data \<Rightarrow> jd_data \<Rightarrow> exn + skills_result" where
  "check_skills_match g resume jd =
     (let cands = candidate_skills resume; reqs = required_skills jd
      in if reqs = []
         then Inr \<lparr>met = True, score = 40, percentage = 100,
                   candidateSkillsCount = length cands, requiredSkillsCount = 0,
                   matchedSkills = cands, missingSkills = [], skillMatchDetails = [],
                   allCandidateSkills = cands\<rparr>
         else (case match_required g cands reqs ([], [], []) of
                 (matched, missing, details) \<Rightarrow>
                   and_then (int_share (int (length matched)) (int (length reqs)) 100) (\<lambda>pct.
                   and_then (int_share (int (length matched)) (int (length reqs)) 40) (\<lambda>sc.
                   Inr \<lparr>met = (50 \<le> pct),
                        score = (if matched \<noteq> [] then max 1 sc else 0),
                        percentage = pct,
                        candidateSkillsCount = length matched,
                        requiredSkillsCount = length reqs,
                        matchedSkills = matched, missingSkills = missing,
                        skillMatchDetails = details,
                        allCandidateSkills = cands\<rparr>))))"

subsection \<open>The overall match\<close>

datatype assessment = Excellent_Match | Great_Match | Good_Match | Moderate_Match | Poor_Match

definition ASSESSMENT_MAP :: "(int \<times> assessment) list" where
  \<comment> \<open>the keys in descending order, as \<open>get_assessment\<close> sorts them\<close>
  "ASSESSMENT_MAP =
     [(90, Excellent_Match), (75, Great_Match), (60, Good_Match), (40, Moderate_Match),
      (0, Poor_Match)]"

definition get_assessment :: "int \<Rightarrow> assessment" where
  "get_assessment sc =
     (case find (\<lambda>(threshold, a). threshold \<le> sc) ASSESSMENT_MAP of
        Some (threshold, a) \<Rightarrow> a
      | None \<Rightarrow> Poor_Match)"

datatype 'a py_arg = PyNone | EmptyDict | Dict 'a

definition falsy :: "'a py_arg \<Rightarrow> bool" where
  \<comment> \<open>\<open>not x\<close> for an argument that is \<open>None\<close>, the empty dictionary, or a record\<close>
  "falsy x = (case x of Dict d \<Rightarrow> False | _ \<Rightarrow> True)"

record match_report =
  experienceMatch :: experience_result
  educationMatch :: education_result
  skillsMatch :: skills_result
  sectionScores :: "int \<times> int \<times> int"
  overallScore :: int
  assessment_of :: assessment
  gaps :: "(string \<times> int) list"
  summary :: "nat \<times> string"

definition summary_text :: "int \<Rightarrow> string" where
  "summary_text overall =
     (if 75 \<le> overall then ''Strong candidate for interview.''
      else if 60 \<le> overall then ''Good candidate to consider.''
      else if 40 \<le> overall then ''Moderate candidate with gaps.''
      else ''Significant improvement needed.'')"

definition match_report_of ::
  "experience_result \<Rightarrow> education_result \<Rightarrow> skills_result \<Rightarrow> match_report" where
  \<comment> \<open>the report built from the three results: \<open>gaps\<close> holds the label and the percentage
      of each sentence \<open>"<label>: <p>% match"\<close>, \<open>summary\<close> the count of met criteria and the
      closing sentence\<close>
  "match_report_of experience_res education_res skills_res =
     (let overall = min 100 (max 0 (score experience_res + score education_res + score skills_res))
      in \<lparr>experienceMatch = experience_res,
          educationMatch = education_res,
          skillsMatch = skills_res,
          sectionScores = (score experience_res, score education_res, score skills_res),
          overallScore = overall,
          assessment_of = get_assessment overall,
          gaps = (if met experience_res then [] else [(''Experience'', percentage experience_res)])
               @ (if met education_res then [] else [(''Education'', percentage education_res)])
               @ (if met skills_res then [] else [(''Skills'', percentage skills_res)]),
          summary = (length (filter id [met experience_res, met education_res, met skills_res]),
                     summary_text overall)\<rparr>)"

definition calculate_match ::
  "py_globals \<Rightarrow> resume_data py_arg \<Rightarrow> jd_data py_arg \<Rightarrow> exn + match_report" where
  \<comment> \<open>the handler \<open>except Exception as e\<close> logs the exception and raises it again, so an
      exception of one of the three checks leaves \<open>calculate_match\<close> as it is\<close>
  "calculate_match g resume_arg jd_arg =
     (if falsy resume_arg \<or> falsy jd_arg then Inl (Exception ''Missing resume or JD data'')
      else case (resume_arg, jd_arg) of
        (Dict resume, Dict jd) \<Rightarrow>
          and_then (check_experience_match resume jd) (\<lambda>experience_res.
          and_then (check_education_match resume jd) (\<lambda>education_res.
          and_then (check_skills_match g resume jd) (\<lambda>skills_res.
          Inr (match_report_of experience_res education_res skills_res))))
      | _ \<Rightarrow> Inl (Exception ''Missing resume or JD data''))"

subsection \<open>Reference values for the properties\<close>

text \<open>
  The number of required skills that some candidate skill matches, as the skills claim
  counts them, and the candidate and requirement of the end-to-end example of the
  specification: six years against five, a bachelor against a bachelor, three of four
  required skills.
\<close>

definition matched_count :: "py_globals \<Rightarrow> resume_data \<Rightarrow> jd_data \<Rightarrow> nat" where
  "matched_count g resume jd =
     length (filter (\<lambda>r. \<exists>c\<in>set (candidate_skills resume). fst (find_skill_match g c r))
                    (required_skills jd))"

definition example_resume :: resume_data where
  "example_resume =
     \<lparr>totalYearsExperience = Some 6,
      education = [EduDict (Degree ''Bachelor of Science in Computer Science'')],
      skills = [SkillDict (Some ''Python''), SkillDict (Some ''Docker''), SkillStr ''SQL'']\<rparr>"

definition example_jd :: jd_data where
  "example_jd =
     \<lparr>minExperienceYears = Some 5,
      requiredEducation = Degree ''Bachelor Degree'',
      requiredSkills = [''python'', ''docker'', ''sql'', ''Kubernetes'']\<rparr>"


section \<open>Properties of the floats\<close>

text \<open>
  The significand and the exponent of a rounded quotient, read on the reals: what the
  scoring code needs to know that its products stay finite and that the integers it
  compares are compared exactly.
\<close>

lemma and_then_Inr [simp]: "and_then (Inr v) f = f v"
  by (simp add: and_then_def)

lemma and_then_Inl [simp]: "and_then (Inl e) f = Inl e"
  by (simp add: and_then_def)

lemma bit_length_bounds: "0 < n \<Longrightarrow> n < 2 ^ bit_length n \<and> 2 ^ bit_length n \<le> 2 * n"
proof (induction n rule: bit_length.induct)
  case (1 n)
  show ?case
  proof (cases "n div 2 = 0")
    case True
    with "1.prems" have n: "n = 1" by auto
    have "bit_length 0 = 0" by (simp add: bit_length.simps)
    then have "bit_length 1 = Suc 0" by (subst bit_length.simps) simp
    then show ?thesis by (simp add: n)
  next
    case False
    with "1.prems" have pos: "0 < n div 2" by auto
    from "1.IH" [OF _ pos] "1.prems"
    have ih: "n div 2 < 2 ^ bit_length (n div 2)" "2 ^ bit_length (n div 2) \<le> 2 * (n div 2)"
      by auto
    have b: "bit_length n = Suc (bit_length (n div 2))"
      using "1.prems" by (subst bit_length.simps) simp
    show ?thesis using ih unfolding b by auto
  qed
qed

lemma bit_length_le: "0 \<le> n \<Longrightarrow> n < 2 ^ k \<Longrightarrow> bit_length n \<le> k"
proof (cases "n = 0")
  case True
  then show ?thesis by (simp add: bit_length.simps)
next
  case False
  assume "0 \<le> n" "n < 2 ^ k"
  with False have pos: "0 < n" by simp
  from bit_length_bounds [OF pos] have "(2::int) ^ bit_length n \<le> 2 * n" by simp
  also have "\<dots> < 2 * 2 ^ k" using \<open>n < 2 ^ k\<close> by simp
  finally have "(2::int) ^ bit_length n < 2 ^ Suc k" by simp
  then have "bit_length n < Suc k" by (rule power_less_imp_less_exp [rotated]) simp
  then show ?thesis by simp
qed

lemma bit_length_pos: "0 < n \<Longrightarrow> 0 < bit_length n"
  by (subst bit_length.simps) simp

lemma bit_length_mono: "0 < a \<Longrightarrow> a \<le> b \<Longrightarrow> bit_length a \<le> bit_length b"
proof -
  assume a: "0 < a" and ab: "a \<le> b"
  then have b: "0 < b" by simp
  have "a < 2 ^ bit_length b" using bit_length_bounds [OF b] ab by simp
  then show ?thesis using a by (intro bit_length_le) auto
qed

lemma scale_pos: "0 < b \<Longrightarrow> 0 < snd (scale a b s)"
  by (simp add: scale_def)

lemma scale_ge_iff:
  assumes "0 < b"
  shows "(snd (scale a b s) * 2 ^ j \<le> fst (scale a b s))
         \<longleftrightarrow> (real_of_int b * 2 powi (s + int j) \<le> real_of_int a)"
proof (cases "0 \<le> s")
  case True
  have "(b * 2 ^ nat s * 2 ^ j \<le> a) \<longleftrightarrow> (real_of_int (b * 2 ^ nat s * 2 ^ j) \<le> real_of_int a)"
    by (simp only: of_int_le_iff)
  also have "real_of_int (b * 2 ^ nat s * 2 ^ j) = real_of_int b * 2 powi (s + int j)"
    using True by (simp add: power_int_def nat_add_distrib power_add)
  finally show ?thesis using True by (simp add: scale_def)
next
  case False
  then have neg: "s < 0" by simp
  have p: "(0::real) < 2 ^ nat (- s)" by simp
  have "(b * 2 ^ j \<le> a * 2 ^ nat (- s)) \<longleftrightarrow> (real_of_int (b * 2 ^ j) \<le> real_of_int (a * 2 ^ nat (- s)))"
    by (simp only: of_int_le_iff)
  also have "\<dots> \<longleftrightarrow> (real_of_int b * 2 ^ j / 2 ^ nat (- s) \<le> real_of_int a)"
    using p by (simp add: field_simps)
  also have "real_of_int b * 2 ^ j / 2 ^ nat (- s) = real_of_int b * 2 powi (s + int j)"
  proof -
    have "(2::real) powi (- s) = 2 ^ nat (- s)" using neg by (simp add: power_int_def)
    moreover have "(2::real) powi s = inverse (2 powi (- s))"
      using power_int_minus [of "2::real" "- s"] by simp
    moreover have "(2::real) powi (s + int j) = 2 powi s * 2 ^ j"
      by (simp add: power_int_add)
    ultimately show ?thesis by (simp add: field_simps)
  qed
  finally show ?thesis using neg by (simp add: scale_def)
qed

lemma p_add: "(2::real) powi x * 2 powi y = 2 powi (x + y)"
  by (simp add: power_int_add)

lemma powi_bit_length:
  assumes "0 < n"
  shows "real_of_int n < 2 powi (int (bit_length n))" and "2 powi (int (bit_length n) - 1) \<le> real_of_int n"
proof -
  from bit_length_bounds [OF assms]
  have u: "n < 2 ^ bit_length n" and l: "2 ^ bit_length n \<le> 2 * n" by auto
  from u have "real_of_int n < real_of_int (2 ^ bit_length n)" by (simp only: of_int_less_iff)
  then show "real_of_int n < 2 powi (int (bit_length n))" by simp
  from l have "real_of_int (2 ^ bit_length n) \<le> real_of_int (2 * n)" by (simp only: of_int_le_iff)
  then have "(2::real) ^ bit_length n \<le> 2 * real_of_int n" by simp
  moreover have "(2::real) powi (int (bit_length n) - 1) = 2 ^ bit_length n / 2"
    by (simp add: power_int_diff)
  ultimately show "2 powi (int (bit_length n) - 1) \<le> real_of_int n" by simp
qed

lemma unit_exponent_bounds:
  assumes a: "0 < a" and b: "0 < b"
  shows "real_of_int a < real_of_int b * 2 powi (unit_exponent a b + 53)"
    and "real_of_int b * 2 powi (unit_exponent a b + 52) \<le> real_of_int a"
proof -
  define e0 where "e0 = int (bit_length a) - int (bit_length b) - 53"
  have ra: "0 < real_of_int a" and rb: "0 < real_of_int b" using a b by simp_all
  have test: "(snd (scale a b e0) * 2 ^ 53 \<le> fst (scale a b e0))
              \<longleftrightarrow> (real_of_int b * 2 powi (e0 + 53) \<le> real_of_int a)"
    using scale_ge_iff [OF b, of a e0 53] by simp
  have hi: "real_of_int a < real_of_int b * 2 powi (e0 + 54)"
  proof -
    have "real_of_int a < 2 powi (int (bit_length a))" by (rule powi_bit_length [OF a])
    also have "\<dots> = 2 powi ((int (bit_length b) - 1) + (e0 + 54))"
      by (simp add: e0_def)
    also have "\<dots> = 2 powi (int (bit_length b) - 1) * 2 powi (e0 + 54)"
      by (simp only: p_add)
    also have "\<dots> \<le> real_of_int b * 2 powi (e0 + 54)"
      using powi_bit_length(2) [OF b] by (intro mult_right_mono) auto
    finally show ?thesis .
  qed
  have lo: "real_of_int b * 2 powi (e0 + 52) \<le> real_of_int a"
  proof -
    have "real_of_int b * 2 powi (e0 + 52) \<le> 2 powi (int (bit_length b)) * 2 powi (e0 + 52)"
      using powi_bit_length(1) [OF b] by (intro mult_right_mono) auto
    also have "\<dots> = 2 powi (int (bit_length b) + (e0 + 52))"
      by (simp only: p_add)
    also have "\<dots> = 2 powi (int (bit_length a) - 1)"
      by (simp add: e0_def)
    also have "\<dots> \<le> real_of_int a" by (rule powi_bit_length [OF a])
    finally show ?thesis .
  qed
  show "real_of_int a < real_of_int b * 2 powi (unit_exponent a b + 53)"
    using hi test by (auto simp: unit_exponent_def e0_def [symmetric] Let_def add.commute)
  show "real_of_int b * 2 powi (unit_exponent a b + 52) \<le> real_of_int a"
    using lo test by (auto simp: unit_exponent_def e0_def [symmetric] Let_def add.commute)
qed

lemma div_less_bound:
  assumes "0 < den" and "num < k * den"
  shows "num div den < (k::int)"
proof -
  have eq: "den * (num div den) + num mod den = num" by (rule mult_div_mod_eq)
  have "0 \<le> num mod den" using assms(1) by simp
  with eq have "den * (num div den) \<le> num" by linarith
  then have "(num div den) * den < k * den" using assms(2) by (simp add: mult.commute)
  then show ?thesis using assms(1) by (simp add: mult_less_cancel_right)
qed

lemma div_ge_bound:
  assumes "0 < den" and "k * den \<le> num"
  shows "(k::int) \<le> num div den"
proof -
  have eq: "den * (num div den) + num mod den = num" by (rule mult_div_mod_eq)
  have "num mod den < den" using assms(1) by simp
  with eq have "num < den * (num div den) + den" by linarith
  then have "num < (num div den + 1) * den" by (simp add: algebra_simps)
  then have "k * den < (num div den + 1) * den" using assms(2) by simp
  then have "k < num div den + 1" using assms(1) by (simp add: mult_less_cancel_right)
  then show ?thesis by simp
qed

lemma round_half_even_bounds:
  assumes "0 < den"
  shows "num div den \<le> round_half_even num den" and "round_half_even num den \<le> num div den + 1"
  by (auto simp: round_half_even_def Let_def)

lemma powi_mono: "x \<le> y \<Longrightarrow> (2::real) powi x \<le> 2 powi y"
  by (rule power_int_increasing) auto

text \<open>The significand of a result; its exponent.\<close>

lemma round_rat_cases:
  assumes a: "0 < a" and b: "0 < b"
  shows "(round_rat a b k = Inf False \<and> 971 \<le> unit_exponent a b + k)
       \<or> (round_rat a b k = Finite 0 0 \<and> unit_exponent a b + k < - 1074)
       \<or> (\<exists>m e. round_rat a b k = Finite m e \<and> 0 < m \<and> m < 2 ^ 53
             \<and> unit_exponent a b + k \<le> e
             \<and> e \<le> max (unit_exponent a b + k) (- 1074) + 1
             \<and> e \<le> 971
             \<and> (- 1074 \<le> unit_exponent a b + k \<longrightarrow> 2 ^ 52 \<le> m))"
proof -
  define e where "e = max (unit_exponent a b + k) (- 1074)"
  define num where "num = fst (scale a b (e - k))"
  define den where "den = snd (scale a b (e - k))"
  define m where "m = round_half_even num den"
  have den: "0 < den" unfolding den_def by (rule scale_pos [OF b])
  have num: "0 \<le> num" using a by (simp add: num_def scale_def)
  have ge: "unit_exponent a b \<le> e - k" by (simp add: e_def)
  have "real_of_int a < real_of_int b * 2 powi (unit_exponent a b + 53)"
    by (rule unit_exponent_bounds [OF a b])
  also have "\<dots> \<le> real_of_int b * 2 powi (e - k + 53)"
    using b ge by (intro mult_left_mono powi_mono) auto
  finally have "\<not> (real_of_int b * 2 powi (e - k + int 53) \<le> real_of_int a)" by simp
  then have "\<not> (den * 2 ^ 53 \<le> num)"
    unfolding den_def num_def using scale_ge_iff [OF b, of a "e - k" 53] by simp
  then have "num < 2 ^ 53 * den" by (simp add: mult.commute)
  then have "num div den < 2 ^ 53" using den by (intro div_less_bound) auto
  then have hi: "m \<le> 2 ^ 53" using round_half_even_bounds(2) [OF den, of num] by (simp add: m_def)
  have "0 \<le> num div den" using num den by (simp add: pos_imp_zdiv_nonneg_iff)
  then have lo: "0 \<le> m" using round_half_even_bounds(1) [OF den, of num] by (simp add: m_def)
  have norm: "2 ^ 52 \<le> m" if "- 1074 \<le> unit_exponent a b + k"
  proof -
    from that have ek: "e - k = unit_exponent a b" by (simp add: e_def)
    have "real_of_int b * 2 powi (e - k + int 52) \<le> real_of_int a"
      using unit_exponent_bounds(2) [OF a b] by (simp add: ek)
    then have "den * 2 ^ 52 \<le> num"
      unfolding den_def num_def using scale_ge_iff [OF b, of a "e - k" 52] by simp
    then have "2 ^ 52 * den \<le> num" by (simp add: mult.commute)
    then have "2 ^ 52 \<le> num div den" using den by (intro div_ge_bound) auto
    then show ?thesis using round_half_even_bounds(1) [OF den, of num] by (simp add: m_def)
  qed
  have r: "round_rat a b k =
      (if m = 0 then Finite 0 0
       else if m = 2 ^ 53 then (if 971 < e + 1 then Inf False else Finite (2 ^ 52) (e + 1))
       else if 971 < e then Inf False else Finite m e)"
    unfolding round_rat_def Let_def e_def m_def num_def den_def by (rule refl)
  have e1: "unit_exponent a b + k \<le> e" and e2: "e \<le> max (unit_exponent a b + k) (- 1074)"
    by (simp_all add: e_def)
  consider (zero) "m = 0" | (top) "m = 2 ^ 53" | (mid) "0 < m" "m < 2 ^ 53"
    using hi lo by linarith
  then show ?thesis
  proof cases
    case zero
    then have "\<not> (- 1074 \<le> unit_exponent a b + k)" using norm by auto
    with zero r show ?thesis by simp
  next
    case top
    show ?thesis
    proof (cases "971 < e + 1")
      case True
      then have "971 \<le> unit_exponent a b + k" by (simp add: e_def)
      with True top r show ?thesis by simp
    next
      case False
      with top r have "round_rat a b k = Finite (2 ^ 52) (e + 1)" by simp
      with False e1 e2 show ?thesis by auto
    qed
  next
    case mid
    show ?thesis
    proof (cases "971 < e")
      case True
      then have "971 \<le> unit_exponent a b + k" by (simp add: e_def)
      with True mid r show ?thesis by simp
    next
      case False
      with mid r have "round_rat a b k = Finite m e" by simp
      with False mid e1 e2 norm show ?thesis by auto
    qed
  qed
qed

lemma powi_le_imp: "(2::real) powi x \<le> 2 powi y \<Longrightarrow> x \<le> y"
proof (rule ccontr)
  assume le: "(2::real) powi x \<le> 2 powi y" and "\<not> x \<le> y"
  then have "y < x" by simp
  then have "(2::real) powi y < 2 powi x" by (intro power_int_strict_increasing) auto
  with le show False by simp
qed

lemma powi_less_imp: "(2::real) powi x < 2 powi y \<Longrightarrow> x < y"
proof (rule ccontr)
  assume l: "(2::real) powi x < 2 powi y" and "\<not> x < y"
  then have "y \<le> x" by simp
  then have "(2::real) powi y \<le> 2 powi x" by (rule powi_mono)
  with l show False by simp
qed

lemma pow_nat_powi: "0 \<le> d \<Longrightarrow> (2::real) ^ nat d = 2 powi d"
  by (simp add: power_int_def)

lemma scaled_value:
  assumes "e \<le> e1"
  shows "real_of_int (m * 2 ^ nat (e1 - e)) * 2 powi e = real_of_int m * 2 powi e1"
proof -
  have "real_of_int (m * 2 ^ nat (e1 - e)) * 2 powi e = real_of_int m * (2 powi (e1 - e) * 2 powi e)"
    using assms by (simp add: pow_nat_powi)
  also have "2 powi (e1 - e) * (2::real) powi e = 2 powi e1" by (simp only: p_add) simp
  finally show ?thesis .
qed

lemma f_le_real:
  "f_le (Finite m1 e1) (Finite m2 e2)
   \<longleftrightarrow> real_of_int m1 * 2 powi e1 \<le> real_of_int m2 * 2 powi e2"
proof -
  define e where "e = min e1 e2"
  have p: "(0::real) < 2 powi e" by simp
  have s1: "real_of_int (m1 * 2 ^ nat (e1 - e)) * 2 powi e = real_of_int m1 * 2 powi e1"
    by (rule scaled_value) (simp add: e_def)
  have s2: "real_of_int (m2 * 2 ^ nat (e2 - e)) * 2 powi e = real_of_int m2 * 2 powi e2"
    by (rule scaled_value) (simp add: e_def)
  have "f_le (Finite m1 e1) (Finite m2 e2)
        \<longleftrightarrow> real_of_int (m1 * 2 ^ nat (e1 - e)) \<le> real_of_int (m2 * 2 ^ nat (e2 - e))"
    unfolding e_def f_le.simps by (simp only: of_int_le_iff)
  also have "\<dots> \<longleftrightarrow> real_of_int (m1 * 2 ^ nat (e1 - e)) * 2 powi e
                       \<le> real_of_int (m2 * 2 ^ nat (e2 - e)) * 2 powi e"
    using p by (simp only: mult_le_cancel_right_pos)
  also have "\<dots> \<longleftrightarrow> real_of_int m1 * 2 powi e1 \<le> real_of_int m2 * 2 powi e2"
    by (simp only: s1 s2)
  finally show ?thesis .
qed

lemma f_less_real:
  "f_less (Finite m1 e1) (Finite m2 e2)
   \<longleftrightarrow> real_of_int m1 * 2 powi e1 < real_of_int m2 * 2 powi e2"
proof -
  define e where "e = min e1 e2"
  have p: "(0::real) < 2 powi e" by simp
  have s1: "real_of_int (m1 * 2 ^ nat (e1 - e)) * 2 powi e = real_of_int m1 * 2 powi e1"
    by (rule scaled_value) (simp add: e_def)
  have s2: "real_of_int (m2 * 2 ^ nat (e2 - e)) * 2 powi e = real_of_int m2 * 2 powi e2"
    by (rule scaled_value) (simp add: e_def)
  have "f_less (Finite m1 e1) (Finite m2 e2)
        \<longleftrightarrow> real_of_int (m1 * 2 ^ nat (e1 - e)) < real_of_int (m2 * 2 ^ nat (e2 - e))"
    unfolding e_def f_less.simps by (simp only: of_int_less_iff)
  also have "\<dots> \<longleftrightarrow> real_of_int (m1 * 2 ^ nat (e1 - e)) * 2 powi e
                       < real_of_int (m2 * 2 ^ nat (e2 - e)) * 2 powi e"
    using p by (simp only: mult_less_cancel_right_pos)
  also have "\<dots> \<longleftrightarrow> real_of_int m1 * 2 powi e1 < real_of_int m2 * 2 powi e2"
    by (simp only: s1 s2)
  finally show ?thesis .
qed

text \<open>A quotient of at most one has a small exponent.\<close>

lemma round_rat_le_one:
  assumes a: "0 < a" and b: "0 < b"
    and le: "real_of_int a * 2 powi k \<le> real_of_int b"
  shows "\<exists>m e. round_rat a b k = Finite m e \<and> 0 \<le> m \<and> m < 2 ^ 53 \<and> e \<le> 0"
proof -
  have "real_of_int b * 2 powi (unit_exponent a b + 52 + k)
        = real_of_int b * 2 powi (unit_exponent a b + 52) * 2 powi k"
    by (simp add: power_int_add)
  also have "\<dots> \<le> real_of_int a * 2 powi k"
    using unit_exponent_bounds(2) [OF a b] by (intro mult_right_mono) auto
  also note le
  finally have "real_of_int b * 2 powi (unit_exponent a b + 52 + k) \<le> real_of_int b * 2 powi 0"
    by simp
  then have "(2::real) powi (unit_exponent a b + 52 + k) \<le> 2 powi 0"
    using b by (simp only: mult_le_cancel_left_pos of_int_0_less_iff)
  then have ue: "unit_exponent a b + 52 + k \<le> 0" by (rule powi_le_imp)
  from round_rat_cases [OF a b, of k] ue show ?thesis by auto
qed

text \<open>A product of two significands has an exponent near the sum of the two exponents.\<close>

lemma round_rat_product:
  assumes a: "0 < a" and hi: "a < 2 ^ 106" and k: "k \<le> 916"
  shows "\<exists>m e. round_rat a 1 k = Finite m e"
proof -
  have "(2::real) powi (unit_exponent a 1 + 52) \<le> real_of_int a"
    using unit_exponent_bounds(2) [OF a, of 1] by simp
  also have "real_of_int a < real_of_int (2 ^ 106)" using hi by (simp only: of_int_less_iff)
  also have "real_of_int (2 ^ 106) = 2 powi 106" by simp
  finally have "unit_exponent a 1 + 52 < 106" by (rule powi_less_imp)
  with round_rat_cases [OF a, of 1 k] k show ?thesis by auto
qed

lemma f_mul_finite:
  assumes "\<bar>m1\<bar> < 2 ^ 53" and "\<bar>m2\<bar> < 2 ^ 53" and "e1 + e2 \<le> 916"
  shows "\<exists>m e. f_mul (Finite m1 e1) (Finite m2 e2) = Finite m e"
proof (cases "m1 = 0 \<or> m2 = 0")
  case True
  then show ?thesis by (auto simp: f_zero_def)
next
  case False
  then have pos: "0 < \<bar>m1 * m2\<bar>" by simp
  have "\<bar>m1\<bar> * \<bar>m2\<bar> < 2 ^ 53 * 2 ^ 53"
    using assms(1,2) by (intro mult_strict_mono) auto
  then have "\<bar>m1 * m2\<bar> < 2 ^ 106" by (simp add: abs_mult)
  from round_rat_product [OF pos this assms(3)] obtain m e
    where "round_rat \<bar>m1 * m2\<bar> 1 (e1 + e2) = Finite m e" by blast
  with False show ?thesis by (auto simp: f_signed_def)
qed

text \<open>An integer below \<open>2 ^ 53\<close> is a float.\<close>

lemma round_half_even_one: "round_half_even x 1 = x"
  by (simp add: round_half_even_def)

lemma round_rat_int_exact:
  assumes n: "0 < n" and hi: "n < 2 ^ 53"
  shows "\<exists>e. - 52 \<le> e \<and> e \<le> 0 \<and> n * 2 ^ nat (- e) < 2 ^ 53
             \<and> round_rat n 1 0 = Finite (n * 2 ^ nat (- e)) e"
proof -
  define e where "e = unit_exponent n 1"
  have lo: "(2::real) powi (e + 52) \<le> real_of_int n"
    and up: "real_of_int n < 2 powi (e + 53)"
    using unit_exponent_bounds [OF n, of 1] by (simp_all add: e_def)
  have "real_of_int n < real_of_int (2 ^ 53)" using hi by (simp only: of_int_less_iff)
  then have "real_of_int n < 2 powi 53" by simp
  with lo have "(2::real) powi (e + 52) < 2 powi 53" by simp
  then have e0: "e \<le> 0" using powi_less_imp [of "e + 52" 53] by simp
  have "real_of_int 1 \<le> real_of_int n" using n by simp
  then have "(2::real) powi 0 \<le> real_of_int n" by simp
  with up have "(2::real) powi 0 < 2 powi (e + 53)" by simp
  then have e52: "- 52 \<le> e" using powi_less_imp [of 0 "e + 53"] by simp
  define m where "m = n * 2 ^ nat (- e)"
  have mv: "real_of_int m * 2 powi e = real_of_int n"
    unfolding m_def using scaled_value [of e 0 n] e0 by simp
  have "(2::real) powi 53 * 2 powi e = 2 powi (e + 53)"
    by (simp only: p_add add.commute)
  with up have "real_of_int m * 2 powi e < 2 powi 53 * 2 powi e"
    by (simp only: mv)
  then have "real_of_int m < 2 powi 53" by (rule mult_right_less_imp_less) simp
  then have "real_of_int m < real_of_int (2 ^ 53)" by simp
  then have m_hi: "m < 2 ^ 53" by (simp only: of_int_less_iff)
  have m_pos: "0 < m" using n by (simp add: m_def)
  have sc: "scale n 1 e = (m, 1)" using e0 by (auto simp: scale_def m_def)
  have "round_rat n 1 0 = Finite m e"
    using m_pos m_hi e0 e52
    by (simp add: round_rat_def Let_def e_def [symmetric] sc round_half_even_one)
  with e0 e52 m_hi show ?thesis unfolding m_def by blast
qed

lemma f_of_int_exact:
  assumes "0 \<le> n" and "n < 2 ^ 53"
  shows "\<exists>e. - 52 \<le> e \<and> e \<le> 0 \<and> n * 2 ^ nat (- e) < 2 ^ 53
             \<and> f_of_int n = Finite (n * 2 ^ nat (- e)) e"
proof (cases "n = 0")
  case True
  then have "f_of_int n = Finite (n * 2 ^ nat (- 0)) 0" by (simp add: f_of_int_def f_zero_def)
  with True show ?thesis by (intro exI [of _ 0]) simp
next
  case False
  with assms have pos: "0 < n" by simp
  from round_rat_int_exact [OF pos assms(2)] pos show ?thesis
    by (auto simp: f_of_int_def f_signed_def)
qed

lemma exact_value:
  assumes "e \<le> 0"
  shows "real_of_int (n * 2 ^ nat (- e)) * 2 powi e = real_of_int n"
  using scaled_value [of e 0 n] assms by simp

lemma f_le_exact:
  assumes "e1 \<le> 0" and "e2 \<le> 0"
  shows "f_le (Finite (a * 2 ^ nat (- e1)) e1) (Finite (b * 2 ^ nat (- e2)) e2) \<longleftrightarrow> a \<le> b"
  unfolding f_le_real exact_value [OF assms(1)] exact_value [OF assms(2)] by simp

lemma f_trunc_exact:
  assumes "e \<le> 0" and "0 \<le> n"
  shows "f_trunc (Finite (n * 2 ^ nat (- e)) e) = Inr n"
proof (cases "n = 0")
  case True
  then show ?thesis by simp
next
  case False
  with assms have "0 < n" by simp
  then have "0 < n * 2 ^ nat (- e)" by simp
  then show ?thesis using assms(1) by (auto simp: sgn_if)
qed

lemma float_of_int_cases:
  "float_of_int n = Inl OverflowError
   \<or> (\<exists>m e. float_of_int n = Inr (Finite m e) \<and> \<bar>m\<bar> < 2 ^ 53 \<and> (0 \<le> n \<longrightarrow> 0 \<le> m))"
proof (cases "n = 0")
  case True
  then show ?thesis by (simp add: float_of_int_def f_of_int_def f_zero_def)
next
  case False
  then have pos: "0 < \<bar>n\<bar>" by simp
  from round_rat_cases [OF pos, of 1 0]
  consider "round_rat \<bar>n\<bar> 1 0 = Inf False" | "round_rat \<bar>n\<bar> 1 0 = Finite 0 0"
    | m e where "round_rat \<bar>n\<bar> 1 0 = Finite m e" "0 < m" "m < 2 ^ 53"
    by auto
  then show ?thesis
  proof cases
    case 1
    with False show ?thesis by (simp add: float_of_int_def f_of_int_def f_signed_def)
  next
    case 2
    with False show ?thesis by (simp add: float_of_int_def f_of_int_def f_signed_def)
  next
    case 3
    with False show ?thesis by (auto simp: float_of_int_def f_of_int_def f_signed_def)
  qed
qed

text \<open>The integer part of a share: a quotient of at most one times a weight.\<close>

lemma share_finite:
  assumes "0 \<le> m" and "m < 2 ^ 53" and "e \<le> 0" and "0 \<le> k" and "k < 2 ^ 53"
  shows "\<exists>v. f_trunc (f_mul (Finite m e) (f_of_int k)) = Inr v"
proof -
  from f_of_int_exact [OF assms(4,5)] obtain ek
    where ek: "ek \<le> 0" "k * 2 ^ nat (- ek) < 2 ^ 53" "f_of_int k = Finite (k * 2 ^ nat (- ek)) ek"
    by blast
  have "\<bar>m\<bar> < 2 ^ 53" using assms(1,2) by simp
  moreover have "\<bar>k * 2 ^ nat (- ek)\<bar> < 2 ^ 53" using assms(4) ek(2) by (simp add: abs_mult)
  moreover have "e + ek \<le> 916" using assms(3) ek(1) by simp
  ultimately obtain m' e' where "f_mul (Finite m e) (Finite (k * 2 ^ nat (- ek)) ek) = Finite m' e'"
    using f_mul_finite by blast
  then show ?thesis by (simp add: ek(3))
qed

lemma int_div_unit:
  assumes "0 \<le> a" and "a \<le> b" and "0 < b"
  shows "\<exists>m e. int_div a b = Inr (Finite m e) \<and> 0 \<le> m \<and> m < 2 ^ 53 \<and> e \<le> 0"
proof (cases "a = 0")
  case True
  with assms show ?thesis by (simp add: int_div_def f_zero_def)
next
  case False
  with assms have a: "0 < a" by simp
  have "real_of_int a * 2 powi 0 \<le> real_of_int b" using assms(2) by simp
  from round_rat_le_one [OF a assms(3) this] obtain m e
    where "round_rat a b 0 = Finite m e" "0 \<le> m" "m < 2 ^ 53" "e \<le> 0" by blast
  with a assms(3) show ?thesis by (simp add: int_div_def f_signed_def)
qed

section \<open>Properties of the skill resolver\<close>

text \<open>
  Claim C10. When either skill normalises to the empty string (lowercasing, removal of
  every character that is not a lowercase letter, a digit or whitespace, collapsing of
  whitespace), the resolver answers no match, of kind \<open>invalid\<close>, with confidence 0. This
  holds also when the two raw strings are the same, and whatever the module namespace is.
\<close>

theorem find_skill_match_invalid:
  assumes "normalize_skill candidate_skill = [] \<or> normalize_skill required_skill = []"
  shows "find_skill_match g candidate_skill required_skill = (False, Invalid, f_zero)"
  using assms by (auto simp: find_skill_match_def Let_def)

theorem find_skill_match_invalid_witness:
  "normalize_skill ''++'' = []
   \<and> find_skill_match skills_analogy_globals ''++'' ''++'' = (False, Invalid, f_zero)"
proof -
  have h: "normalize_skill ''++'' = []" by code_simp
  then have "normalize_skill ''++'' = [] \<or> normalize_skill ''++'' = []" by simp
  from find_skill_match_invalid [OF this, of skills_analogy_globals] h show ?thesis by simp
qed

text \<open>
  Claim C8, as amended. For every pair of skills whose normalised forms are both not
  empty, the resolver takes the first strategy that succeeds: equal normalised forms
  (exact, confidence 1.0); the same non-empty canonical group, when the alias lookup
  returns one for both skills (confidence 0.95); a similarity ratio of at least 0.70
  (confidence the ratio); one normalised form inside the other with both longer than
  three characters (confidence 0.88); otherwise no match with confidence 0. The statement
  holds for every module namespace, so it says nothing about whether the lookup succeeds.
  In the module as it is, \<open>Python\<close> against \<open>Java\<close> is no match.
\<close>

theorem find_skill_match_strategies:
  assumes "normalize_skill c \<noteq> []" and "normalize_skill r \<noteq> []"
  shows "(normalize_skill c = normalize_skill r \<longrightarrow>
            find_skill_match g c r = (True, Exact, f_of_int 1))
       \<and> (normalize_skill c \<noteq> normalize_skill r \<and> same_group g c r \<longrightarrow>
            find_skill_match g c r = (True, Analogy, f_lit 95 100))
       \<and> (normalize_skill c \<noteq> normalize_skill r \<and> \<not> same_group g c r
            \<and> f_le (f_lit 70 100) (ratio (normalize_skill c) (normalize_skill r)) \<longrightarrow>
            find_skill_match g c r = (True, Fuzzy, ratio (normalize_skill c) (normalize_skill r)))
       \<and> (normalize_skill c \<noteq> normalize_skill r \<and> \<not> same_group g c r
            \<and> \<not> f_le (f_lit 70 100) (ratio (normalize_skill c) (normalize_skill r))
            \<and> 3 < length (normalize_skill r) \<and> 3 < length (normalize_skill c)
            \<and> (contains (normalize_skill r) (normalize_skill c)
                \<or> contains (normalize_skill c) (normalize_skill r)) \<longrightarrow>
            find_skill_match g c r = (True, Substring, f_lit 88 100))
       \<and> (normalize_skill c \<noteq> normalize_skill r \<and> \<not> same_group g c r
            \<and> \<not> f_le (f_lit 70 100) (ratio (normalize_skill c) (normalize_skill r))
            \<and> \<not> (3 < length (normalize_skill r) \<and> 3 < length (normalize_skill c)
                  \<and> (contains (normalize_skill r) (normalize_skill c)
                      \<or> contains (normalize_skill c) (normalize_skill r))) \<longrightarrow>
            find_skill_match g c r = (False, No_match, f_zero))
       \<and> (same_group g c r \<longleftrightarrow>
            (\<exists>grp. grp \<noteq> [] \<and> get_skill_group g c = Inr (Some grp)
                   \<and> get_skill_group g r = Inr (Some grp)))
       \<and> find_skill_match skills_analogy_globals ''Python'' ''Java'' = (False, No_match, f_zero)"
proof -
  have pj: "find_skill_match skills_analogy_globals ''Python'' ''Java'' = (False, No_match, f_zero)"
    by code_simp
  have sg: "same_group g c r \<longleftrightarrow>
            (\<exists>grp. grp \<noteq> [] \<and> get_skill_group g c = Inr (Some grp)
                   \<and> get_skill_group g r = Inr (Some grp))"
    by (auto simp: same_group_def truthy_group_def split: sum.splits option.splits)
  have unfolded: "find_skill_match g c r =
      (if normalize_skill c = normalize_skill r then (True, Exact, f_of_int 1)
       else if same_group g c r then (True, Analogy, f_lit 95 100)
       else if f_le (f_lit 70 100) (ratio (normalize_skill c) (normalize_skill r))
            then (True, Fuzzy, ratio (normalize_skill c) (normalize_skill r))
       else if 3 < length (normalize_skill r) \<and> 3 < length (normalize_skill c)
               \<and> (contains (normalize_skill r) (normalize_skill c)
                   \<or> contains (normalize_skill c) (normalize_skill r))
            then (True, Substring, f_lit 88 100)
       else (False, No_match, f_zero))"
    using assms by (simp add: find_skill_match_def Let_def)
  show ?thesis
  proof (intro conjI impI)
    show "same_group g c r \<longleftrightarrow>
            (\<exists>grp. grp \<noteq> [] \<and> get_skill_group g c = Inr (Some grp)
                   \<and> get_skill_group g r = Inr (Some grp))"
      by (rule sg)
    show "find_skill_match skills_analogy_globals ''Python'' ''Java'' = (False, No_match, f_zero)"
      by (rule pj)
  qed (simp_all add: unfolded)
qed

theorem find_skill_match_strategies_witness:
  "normalize_skill ''JavaScript'' = ''javascript'' \<and> normalize_skill ''Java'' = ''java''
   \<and> find_skill_match skills_analogy_globals ''JavaScript'' ''Java'' = (True, Substring, f_lit 88 100)
   \<and> find_skill_match skills_analogy_globals ''Python'' ''Java'' = (False, No_match, f_zero)"
proof -
  have c: "normalize_skill ''JavaScript'' = ''javascript''" by code_simp
  have r: "normalize_skill ''Java'' = ''java''" by code_simp
  have g: "\<not> same_group skills_analogy_globals ''JavaScript'' ''Java''" by code_simp
  have q: "\<not> f_le (f_lit 70 100) (ratio ''javascript'' ''java'')" by code_simp
  have s: "contains ''javascript'' ''java''" by code_simp
  from find_skill_match_strategies [of "''JavaScript''" "''Java''" skills_analogy_globals]
  show ?thesis by (simp add: c r g q s)
qed

text \<open>
  The claim as it was stated fails where both skills normalise to the same empty string:
  the guard answers before the exact comparison.
\<close>

theorem find_skill_match_empty_equal:
  "normalize_skill ''#'' = normalize_skill ''#''
   \<and> find_skill_match skills_analogy_globals ''#'' ''#'' = (False, Invalid, f_zero)"
  by code_simp

text \<open>
  With the module as it is, the alias lookup raises \<open>NameError\<close> for every non-empty
  skill, the \<open>except\<close> clause swallows it, and \<open>ReactJS\<close> against \<open>React\<close> is decided by
  the similarity ratio 10/12.
\<close>

lemma find_skill_match_reactjs:
  "get_skill_group skills_analogy_globals ''ReactJS'' = Inl NameError
   \<and> find_skill_match skills_analogy_globals ''ReactJS'' ''React''
       = (True, Fuzzy, f_quot (f_of_int 10) (f_of_int 12))"
  by code_simp

section \<open>Properties of the scoring engine\<close>

lemma f_less_zero: "f_less f_zero (Finite m e) \<longleftrightarrow> 0 < m"
  by (simp add: f_zero_def zero_less_mult_iff)

lemma f_trunc_error: "f_trunc x = Inl e \<Longrightarrow> e = OverflowError \<or> e = ValueError"
  by (cases x) auto

lemma float_share_returns:
  assumes mc: "0 \<le> mc" "mc < 2 ^ 53"
    and less: "\<not> f_le (Finite mr er) (Finite mc ec)"
    and pos: "0 < mr"
    and k: "0 \<le> k" "k < 2 ^ 53"
  shows "\<exists>q v. f_div (Finite mc ec) (Finite mr er) = Inr q
            \<and> f_trunc (f_mul q (f_of_int k)) = Inr v
            \<and> float_share (Finite mc ec) (Finite mr er) k = Inr v"
proof -
  have d: "f_div (Finite mc ec) (Finite mr er) = Inr (f_quot (Finite mc ec) (Finite mr er))"
    using pos by (simp add: f_div_def)
  have "\<exists>m e. f_quot (Finite mc ec) (Finite mr er) = Finite m e \<and> 0 \<le> m \<and> m < 2 ^ 53 \<and> e \<le> 0"
  proof (cases "mc = 0")
    case True
    then show ?thesis by (simp add: f_zero_def)
  next
    case False
    with mc have a: "0 < mc" by simp
    from less have "real_of_int mc * 2 powi ec < real_of_int mr * 2 powi er"
      unfolding f_le_real by simp
    then have "real_of_int mc * 2 powi ec * 2 powi (- er) < real_of_int mr * 2 powi er * 2 powi (- er)"
      by (rule mult_strict_right_mono) simp
    moreover have "real_of_int mc * 2 powi ec * 2 powi (- er) = real_of_int mc * 2 powi (ec - er)"
      using p_add [of ec "- er"] by (simp add: mult.assoc)
    moreover have "real_of_int mr * 2 powi er * 2 powi (- er) = real_of_int mr"
      using p_add [of er "- er"] by (simp add: mult.assoc)
    ultimately have "real_of_int mc * 2 powi (ec - er) \<le> real_of_int mr" by simp
    from round_rat_le_one [OF a pos this] obtain m e
      where "round_rat mc mr (ec - er) = Finite m e" "0 \<le> m" "m < 2 ^ 53" "e \<le> 0" by blast
    with a pos show ?thesis by (simp add: f_signed_def)
  qed
  then obtain m e where q: "f_quot (Finite mc ec) (Finite mr er) = Finite m e"
      "0 \<le> m" "m < 2 ^ 53" "e \<le> 0" by blast
  from share_finite [OF q(2,3,4) k] obtain v
    where v: "f_trunc (f_mul (Finite m e) (f_of_int k)) = Inr v" by blast
  have "float_share (Finite mc ec) (Finite mr er) k = Inr v"
    using pos by (simp only: float_share_def f_less_zero d q(1) v and_then_Inr if_True)
  with d q(1) v show ?thesis by simp
qed

lemma experience_result_returns:
  assumes "0 \<le> mc" and "mc < 2 ^ 53"
  shows "\<exists>res. experience_result_of (Finite mc ec) (Finite mr er) = Inr res"
proof -
  consider "f_is_zero (Finite mr er) \<or> f_le (Finite mr er) (Finite mc ec)"
    | "\<not> f_is_zero (Finite mr er)" "\<not> f_le (Finite mr er) (Finite mc ec)" "0 < mr"
    | "\<not> f_is_zero (Finite mr er)" "\<not> f_le (Finite mr er) (Finite mc ec)" "\<not> 0 < mr"
    by blast
  then show ?thesis
  proof cases
    case 1
    then show ?thesis by (auto simp: experience_result_of_def simp del: f_le.simps)
  next
    case 2
    from float_share_returns [OF assms 2(2,3), of 100] obtain pct
      where pct: "float_share (Finite mc ec) (Finite mr er) 100 = Inr pct" by auto
    from float_share_returns [OF assms 2(2,3), of 35] obtain sc
      where sc: "float_share (Finite mc ec) (Finite mr er) 35 = Inr sc" by auto
    show ?thesis using 2(1,2)
      by (simp add: experience_result_of_def pct sc del: f_le.simps)
  next
    case 3
    then have "float_share (Finite mc ec) (Finite mr er) k = Inr 0" for k
      by (simp add: float_share_def f_less_zero)
    with 3(1,2) show ?thesis
      by (simp add: experience_result_of_def del: f_le.simps)
  qed
qed

lemma check_experience_match_returns:
  assumes "0 \<le> or_zero (totalYearsExperience resume)"
  shows "\<exists>res. check_experience_match resume jd = Inr res"
proof -
  have z: "\<exists>res. experience_result_of f_zero f_zero = Inr res"
    unfolding f_zero_def by (rule experience_result_returns) simp_all
  from float_of_int_cases [of "or_zero (totalYearsExperience resume)"] assms
  consider "float_of_int (or_zero (totalYearsExperience resume)) = Inl OverflowError"
    | mc ec where "float_of_int (or_zero (totalYearsExperience resume)) = Inr (Finite mc ec)"
        "0 \<le> mc" "mc < 2 ^ 53"
    by auto
  then show ?thesis
  proof cases
    case 1
    with z show ?thesis by (simp add: check_experience_match_def experience_years_def)
  next
    case 2
    from float_of_int_cases [of "or_zero (minExperienceYears jd)"]
    consider "float_of_int (or_zero (minExperienceYears jd)) = Inl OverflowError"
      | mr er where "float_of_int (or_zero (minExperienceYears jd)) = Inr (Finite mr er)"
      by auto
    then show ?thesis
    proof cases
      case 1
      with 2 z show ?thesis by (simp add: check_experience_match_def experience_years_def)
    next
      case r: 2
      from experience_result_returns [OF 2(2,3), of ec mr er] 2(1) r
      show ?thesis by (simp add: check_experience_match_def experience_years_def)
    qed
  qed
qed

lemma check_experience_match_error:
  assumes "check_experience_match resume jd = Inl e"
  shows "e = OverflowError \<or> e = ValueError \<or> e = ZeroDivisionError"
proof -
  have share: "float_share x y k = Inl e \<Longrightarrow> e = OverflowError \<or> e = ValueError \<or> e = ZeroDivisionError"
    for x y k
    by (auto simp: float_share_def and_then_def f_div_def dest: f_trunc_error
             split: if_splits sum.splits)
  obtain x y where xy: "experience_years resume jd = (x, y)" by (cases "experience_years resume jd")
  from assms have "experience_result_of x y = Inl e" by (simp add: check_experience_match_def xy)
  then show ?thesis
    by (auto simp: experience_result_of_def and_then_def dest: f_trunc_error share
             split: if_splits sum.splits prod.splits)
qed

text \<open>
  Claim C4: the claim as it was stated. A candidate with 0 years against 5 required years
  gets the score 1, not 0: \<open>max(1, score)\<close> is applied on every path of the proportional
  branch.
\<close>

theorem check_experience_match_zero_years:
  "check_experience_match
     \<lparr>totalYearsExperience = Some 0, education = [], skills = []\<rparr>
     \<lparr>minExperienceYears = Some 5, requiredEducation = Absent, requiredSkills = []\<rparr>
   = Inr \<lparr>met = False, score = 1, percentage = 0, candidateExperience = 0, requiredExperience = 5\<rparr>"
  by code_simp

text \<open>
  Claim C4, as amended. For whole years from 0 up to \<open>2 ^ 53\<close>, which the conversion to
  a float keeps exact: when the required years are 0, or the candidate has at least the
  required years, the score is 35, the percentage 100 and the dimension is met. Otherwise
  the dimension is not met, the score is the integer part of candidate / required * 35,
  as the source computes it in floats, raised to 1 whenever it is below 1 (also for a
  candidate with 0 years), and the percentage is the integer part of
  candidate / required * 100.
\<close>

theorem check_experience_match_score:
  assumes c: "0 \<le> c" "c < 2 ^ 53" and r: "0 \<le> r" "r < 2 ^ 53"
    and rc: "or_zero (totalYearsExperience resume) = c"
    and rr: "or_zero (minExperienceYears jd) = r"
  shows "\<exists>res. check_experience_match resume jd = Inr res
           \<and> candidateExperience res = c \<and> requiredExperience res = r
           \<and> (r = 0 \<or> r \<le> c \<longrightarrow> score res = 35 \<and> percentage res = 100 \<and> met res)
           \<and> (r \<noteq> 0 \<and> c < r \<longrightarrow>
                \<not> met res
                \<and> (\<exists>q pct sc. f_div (f_of_int c) (f_of_int r) = Inr q
                      \<and> f_trunc (f_mul q (f_of_int 100)) = Inr pct
                      \<and> f_trunc (f_mul q (f_of_int 35)) = Inr sc
                      \<and> score res = max 1 sc \<and> percentage res = min 100 pct))"
proof -
  from f_of_int_exact [OF c] obtain ec
    where ec: "ec \<le> 0" "c * 2 ^ nat (- ec) < 2 ^ 53" "f_of_int c = Finite (c * 2 ^ nat (- ec)) ec"
    by blast
  from f_of_int_exact [OF r] obtain er
    where er: "er \<le> 0" "r * 2 ^ nat (- er) < 2 ^ 53" "f_of_int r = Finite (r * 2 ^ nat (- er)) er"
    by blast
  define mc where "mc = c * 2 ^ nat (- ec)"
  define mr where "mr = r * 2 ^ nat (- er)"
  have fc: "f_of_int c = Finite mc ec" and fr: "f_of_int r = Finite mr er"
    by (simp_all add: ec(3) er(3) mc_def mr_def)
  have mc: "0 \<le> mc" "mc < 2 ^ 53" using c(1) ec(2) by (simp_all add: mc_def)
  have mr0: "mr = 0 \<longleftrightarrow> r = 0" and mrp: "0 < mr \<longleftrightarrow> 0 < r"
    by (simp_all add: mr_def zero_less_mult_iff)
  have le: "f_le (Finite mr er) (Finite mc ec) \<longleftrightarrow> r \<le> c"
    unfolding mc_def mr_def by (rule f_le_exact [OF er(1) ec(1)])
  have tc: "f_trunc (Finite mc ec) = Inr c"
    unfolding mc_def by (rule f_trunc_exact [OF ec(1) c(1)])
  have tr: "f_trunc (Finite mr er) = Inr r"
    unfolding mr_def by (rule f_trunc_exact [OF er(1) r(1)])
  have years: "experience_years resume jd = (Finite mc ec, Finite mr er)"
    by (simp add: experience_years_def rc rr float_of_int_def fc fr)
  have m: "check_experience_match resume jd = experience_result_of (Finite mc ec) (Finite mr er)"
    by (simp add: check_experience_match_def years)
  show ?thesis
  proof (cases "r = 0 \<or> r \<le> c")
    case True
    then have "experience_result_of (Finite mc ec) (Finite mr er)
               = Inr \<lparr>met = (r \<le> c), score = 35, percentage = 100,
                      candidateExperience = c, requiredExperience = r\<rparr>"
      by (auto simp: experience_result_of_def le tc tr mr0 simp del: f_le.simps f_trunc.simps)
    with True c(1) r(1) m show ?thesis by auto
  next
    case False
    then have lt: "c < r" "r \<noteq> 0" by auto
    then have pos: "0 < mr" using mrp r(1) by simp
    have nle: "\<not> f_le (Finite mr er) (Finite mc ec)" using lt le by simp
    from float_share_returns [OF mc nle pos, of 100] obtain q pct
      where q: "f_div (Finite mc ec) (Finite mr er) = Inr q"
        and pct: "f_trunc (f_mul q (f_of_int 100)) = Inr pct"
          "float_share (Finite mc ec) (Finite mr er) 100 = Inr pct"
      by auto
    from float_share_returns [OF mc nle pos, of 35] q obtain sc
      where sc: "f_trunc (f_mul q (f_of_int 35)) = Inr sc"
          "float_share (Finite mc ec) (Finite mr er) 35 = Inr sc"
      by auto
    have "experience_result_of (Finite mc ec) (Finite mr er)
               = Inr \<lparr>met = False, score = max 1 sc, percentage = min 100 pct,
                      candidateExperience = c, requiredExperience = r\<rparr>"
      using lt pos nle
      by (simp add: experience_result_of_def pct(2) sc(2) tc tr
               del: f_le.simps f_trunc.simps)
    with lt m q pct(1) sc(1) show ?thesis by (auto simp: fc fr)
  qed
qed

theorem check_experience_match_score_witness:
  "(0::int) \<le> 3 \<and> (3::int) < 5
   \<and> check_experience_match
       \<lparr>totalYearsExperience = Some 3, education = [], skills = []\<rparr>
       \<lparr>minExperienceYears = Some 5, requiredEducation = Absent, requiredSkills = []\<rparr>
     = Inr \<lparr>met = False, score = 21, percentage = 60,
            candidateExperience = 3, requiredExperience = 5\<rparr>
   \<and> (\<exists>q. f_div (f_of_int 3) (f_of_int 5) = Inr q
          \<and> f_trunc (f_mul q (f_of_int 35)) = Inr 21)"
proof -
  have e: "check_experience_match
       \<lparr>totalYearsExperience = Some 3, education = [], skills = []\<rparr>
       \<lparr>minExperienceYears = Some 5, requiredEducation = Absent, requiredSkills = []\<rparr>
     = Inr \<lparr>met = False, score = 21, percentage = 60,
            candidateExperience = 3, requiredExperience = 5\<rparr>"
    by code_simp
  have s: "f_trunc (f_mul (f_quot (f_of_int 3) (f_of_int 5)) (f_of_int 35)) = Inr 21"
    by code_simp
  have d: "f_div (f_of_int 3) (f_of_int 5) = Inr (f_quot (f_of_int 3) (f_of_int 5))"
    by code_simp
  from check_experience_match_score
         [of 3 5 "\<lparr>totalYearsExperience = Some 3, education = [], skills = []\<rparr>"
             "\<lparr>minExperienceYears = Some 5, requiredEducation = Absent, requiredSkills = []\<rparr>"]
  have "\<exists>res. check_experience_match
       \<lparr>totalYearsExperience = Some 3, education = [], skills = []\<rparr>
       \<lparr>minExperienceYears = Some 5, requiredEducation = Absent, requiredSkills = []\<rparr> = Inr res
       \<and> \<not> met res"
    by (auto simp: or_zero_def)
  with e s d show ?thesis by simp
qed

text \<open>The levels of the education check are the five ranks of the hierarchy.\<close>

lemma find_in_set: "find P xs = Some x \<Longrightarrow> x \<in> set xs"
  by (induction xs) (auto split: if_splits)

lemma normalize_education_level:
  "0 \<le> snd (normalize_education d) \<and> snd (normalize_education d) \<le> 4"
proof -
  have "(key, v) \<in> set EDUCATION_HIERARCHY \<Longrightarrow> 0 \<le> v \<and> v \<le> 4" for key v
    by (auto simp: EDUCATION_HIERARCHY_def)
  then show ?thesis
    by (auto simp: normalize_education_def dest!: find_in_set split: option.splits)
qed

lemma not_specified_level: "snd (normalize_education (Some ''not specified'')) = 0"
  by code_simp

lemma highest_education_level:
  "fst (highest_education es acc)
   = Max (insert (fst acc) ((\<lambda>e. snd (normalize_education (degree_str e))) ` set es))"
proof (induction es arbitrary: acc)
  case Nil
  then show ?case by simp
next
  case (Cons e es)
  obtain l d where acc: "acc = (l, d)" by (cases acc)
  define lev where "lev = (\<lambda>e. snd (normalize_education (degree_str e)))"
  have fin: "finite (lev ` set es)" by simp
  have mx: "Max (insert (max l (lev e)) (lev ` set es)) = Max (insert l (insert (lev e) (lev ` set es)))"
  proof (cases "lev ` set es = {}")
    case True
    then show ?thesis by (simp add: max.commute)
  next
    case False
    with fin show ?thesis by (simp add: max.assoc)
  qed
  define acc' where "acc' = (if l < lev e then (lev e, degree_str e) else (l, d))"
  have f: "fst acc' = max l (lev e)" by (simp add: acc'_def max_def)
  have "highest_education (e # es) acc = highest_education es acc'"
    by (simp add: acc acc'_def lev_def)
  then have "fst (highest_education (e # es) acc) = Max (insert (fst acc') (lev ` set es))"
    by (simp add: Cons.IH lev_def)
  also have "\<dots> = Max (insert l (insert (lev e) (lev ` set (es))))"
    by (simp only: f mx)
  finally show ?case by (simp add: acc lev_def)
qed

lemma candidate_level:
  "fst (candidate_education resume)
   = Max (insert 0 ((\<lambda>e. snd (normalize_education (degree_str e))) ` set (education resume)))"
proof -
  obtain l d where h: "highest_education (education resume) (0, Some ''not specified'') = (l, d)"
    by (cases "highest_education (education resume) (0, Some ''not specified'')")
  from highest_education_level [of "education resume" "(0, Some ''not specified'')"] h
  show ?thesis by (simp add: candidate_education_def)
qed

lemma candidate_level_range:
  "0 \<le> fst (candidate_education resume) \<and> fst (candidate_education resume) \<le> 4"
proof -
  define A where "A = insert 0 ((\<lambda>e. snd (normalize_education (degree_str e))) ` set (education resume))"
  have "finite A" "A \<noteq> {}" by (simp_all add: A_def)
  then have "Max A \<in> A" by (rule Max_in)
  then show ?thesis
    unfolding candidate_level A_def [symmetric]
    using normalize_education_level by (auto simp: A_def)
qed

lemma int_share_unit:
  assumes "0 \<le> a" and "a \<le> b" and "0 < b" and "0 \<le> k" and "k < 2 ^ 53"
  shows "\<exists>q v. int_div a b = Inr q \<and> f_trunc (f_mul q (f_of_int k)) = Inr v
            \<and> int_share a b k = Inr v"
proof -
  from int_div_unit [OF assms(1,2,3)] obtain m e
    where q: "int_div a b = Inr (Finite m e)" "0 \<le> m" "m < 2 ^ 53" "e \<le> 0" by blast
  from share_finite [OF q(2,3,4) assms(4,5)] obtain v
    where v: "f_trunc (f_mul (Finite m e) (f_of_int k)) = Inr v" by blast
  have "int_share a b k = Inr v"
    using assms(3) by (simp only: int_share_def q(1) v and_then_Inr if_True)
  with q(1) v show ?thesis by simp
qed

lemma check_education_match_returns: "\<exists>res. check_education_match resume jd = Inr res"
proof -
  define cl where "cl = fst (candidate_education resume)"
  define rl where "rl = snd (normalize_education (get_degree (requiredEducation jd)))"
  show ?thesis
  proof (cases "rl \<le> cl \<or> rl = 0")
    case True
    then show ?thesis
      by (auto simp: check_education_match_def Let_def cl_def rl_def)
  next
    case False
    have "0 \<le> cl" unfolding cl_def using candidate_level_range by simp
    with False have h: "0 \<le> cl" "cl \<le> rl" "0 < rl" by auto
    from int_share_unit [OF h, of 100] obtain pct where pct: "int_share cl rl 100 = Inr pct" by auto
    from int_share_unit [OF h, of 25] obtain sc where sc: "int_share cl rl 25 = Inr sc" by auto
    show ?thesis
      using False pct sc
      by (auto simp: check_education_match_def Let_def cl_def [symmetric] rl_def [symmetric])
  qed
qed

text \<open>On the levels of the hierarchy the share computed in floats is the integer quotient.\<close>

lemma int_share_levels:
  assumes "0 \<le> cl" and "cl < rl" and "rl \<le> 4"
  shows "int_share cl rl 25 = Inr (25 * cl div rl) \<and> int_share cl rl 100 = Inr (100 * cl div rl)"
proof -
  have t: "list_all (\<lambda>(a, b). int_share a b 25 = Inr (25 * a div b)
                               \<and> int_share a b 100 = Inr (100 * a div b))
             [(0, 1), (0, 2), (0, 3), (0, 4), (1, 2), (1, 3), (1, 4), (2, 3), (2, 4), (3, 4)]"
    by code_simp
  from assms have "cl = 0 \<or> cl = 1 \<or> cl = 2 \<or> cl = 3" by arith
  moreover from assms have "rl = 1 \<or> rl = 2 \<or> rl = 3 \<or> rl = 4" by arith
  ultimately have "(cl, rl) \<in> set [(0, 1), (0, 2), (0, 3), (0, 4), (1, 2), (1, 3), (1, 4),
                                       (2, 3), (2, 4), (3, 4)]"
    using assms(2) by auto
  with t show ?thesis unfolding list_all_iff by blast
qed

lemma hierarchy_levels:
  "map (\<lambda>d. snd (normalize_education (Some d)))
     [''PhD'', ''Doctorate'', ''Master'', ''M.Tech'', ''MBA'', ''Bachelor'', ''B.Tech'', ''B.S'',
      ''B.A'', ''Diploma'', ''High School'', ''Certificate'']
   = [4, 4, 3, 3, 3, 2, 2, 2, 2, 1, 0, 0]"
  by code_simp

text \<open>
  Claim C5: the claim as it was stated. A candidate with no education entry against a
  required bachelor (the fourth case of test\_education.py) gets the score 1, not 0:
  \<open>max(1, score)\<close> is applied on every path of the proportional branch.
\<close>

theorem check_education_match_no_education:
  "check_education_match
     \<lparr>totalYearsExperience = None, education = [], skills = []\<rparr>
     \<lparr>minExperienceYears = None, requiredEducation = Degree ''Bachelor Degree'', requiredSkills = []\<rparr>
   = Inr \<lparr>met = False, score = 1, percentage = 0, candidateDegree = ''not specified'',
          requiredDegree = Some ''Bachelor Degree'', isOverqualified = False\<rparr>"
  by code_simp

text \<open>
  Claim C5, as amended. The levels are those of the hierarchy: 4 for a doctorate, 3 for a
  master, 2 for a bachelor, 1 for a diploma, 0 for anything else. The candidate's level
  is the highest level of the education entries, 0 without an entry. When the required
  level is 0 (nothing recognised is required), the score is 25 and the dimension is met.
  When the candidate's level is at least a required level above 0, the score is 25, the
  dimension is met, and the candidate is flagged overqualified exactly when the level is
  strictly higher. Otherwise the dimension is not met, nothing is flagged, the score is
  the integer quotient of 25 times the candidate's level by the required level, raised to
  1 whenever it is below 1 (also for the candidate level 0), and the percentage is the
  integer quotient of 100 times the candidate's level by the required level.
\<close>

theorem check_education_match_score:
  fixes resume jd
  defines "cl \<equiv> fst (candidate_education resume)"
    and "rl \<equiv> snd (normalize_education (get_degree (requiredEducation jd)))"
  shows "cl = Max (insert 0 ((\<lambda>e. snd (normalize_education (degree_str e))) ` set (education resume)))
       \<and> map (\<lambda>d. snd (normalize_education (Some d)))
            [''PhD'', ''Doctorate'', ''Master'', ''M.Tech'', ''MBA'', ''Bachelor'', ''B.Tech'',
             ''B.S'', ''B.A'', ''Diploma'', ''High School'', ''Certificate'']
          = [4, 4, 3, 3, 3, 2, 2, 2, 2, 1, 0, 0]
       \<and> (\<exists>res. check_education_match resume jd = Inr res
             \<and> (rl = 0 \<longrightarrow> score res = 25 \<and> met res \<and> \<not> isOverqualified res)
             \<and> (0 < rl \<and> rl \<le> cl \<longrightarrow>
                  score res = 25 \<and> met res \<and> isOverqualified res = (rl < cl))
             \<and> (cl < rl \<longrightarrow>
                  \<not> met res \<and> \<not> isOverqualified res
                  \<and> score res = max 1 (25 * cl div rl)
                  \<and> percentage res = 100 * cl div rl))"
proof -
  have c0: "0 \<le> cl" unfolding cl_def using candidate_level_range by simp
  have r0: "0 \<le> rl" and r4: "rl \<le> 4" unfolding rl_def using normalize_education_level by simp_all
  have ns: "get_degree (requiredEducation jd) = Some ''not specified'' \<Longrightarrow> rl = 0"
    unfolding rl_def by (simp add: not_specified_level)
  have res: "\<exists>res. check_education_match resume jd = Inr res
             \<and> (rl = 0 \<longrightarrow> score res = 25 \<and> met res \<and> \<not> isOverqualified res)
             \<and> (0 < rl \<and> rl \<le> cl \<longrightarrow>
                  score res = 25 \<and> met res \<and> isOverqualified res = (rl < cl))
             \<and> (cl < rl \<longrightarrow>
                  \<not> met res \<and> \<not> isOverqualified res
                  \<and> score res = max 1 (25 * cl div rl)
                  \<and> percentage res = 100 * cl div rl)"
  proof (cases "rl \<le> cl \<or> rl = 0")
    case True
    with c0 r0 ns show ?thesis
      by (auto simp: check_education_match_def Let_def cl_def [symmetric] rl_def [symmetric])
  next
    case False
    then have lt: "cl < rl" by auto
    from int_share_levels [OF c0 lt r4]
    have pct: "int_share cl rl 100 = Inr (100 * cl div rl)"
      and sc: "int_share cl rl 25 = Inr (25 * cl div rl)" by simp_all
    have "100 * cl < 100 * rl" using lt by simp
    then have "100 * cl div rl < 100" using c0 lt
      by (intro div_less_bound) (simp_all add: mult.commute)
    then have small: "min 100 (100 * cl div rl) = 100 * cl div rl" by simp
    have ns': "get_degree (requiredEducation jd) \<noteq> Some ''not specified''"
      using ns lt c0 by auto
    have "check_education_match resume jd
          = Inr \<lparr>met = False, score = max 1 (25 * cl div rl), percentage = 100 * cl div rl,
                 candidateDegree = snd (candidate_education resume),
                 requiredDegree = get_degree (requiredEducation jd),
                 isOverqualified = False\<rparr>"
      using False ns' pct sc small
      by (auto simp: check_education_match_def Let_def cl_def [symmetric] rl_def [symmetric])
    with False show ?thesis by auto
  qed
  show ?thesis
    using res candidate_level [of resume] hierarchy_levels by (simp add: cl_def)
qed

theorem check_education_match_score_witness:
  "fst (candidate_education
          \<lparr>totalYearsExperience = None,
           education = [EduStr ''Diploma in IT'', EduDict (Degree ''B.Tech CSE'')],
           skills = []\<rparr>) = 2
   \<and> snd (normalize_education (Some ''Master of Science'')) = 3
   \<and> check_education_match
       \<lparr>totalYearsExperience = None,
        education = [EduStr ''Diploma in IT'', EduDict (Degree ''B.Tech CSE'')],
        skills = []\<rparr>
       \<lparr>minExperienceYears = None, requiredEducation = Degree ''Master of Science'',
        requiredSkills = []\<rparr>
     = Inr \<lparr>met = False, score = 16, percentage = 66, candidateDegree = ''B.Tech CSE'',
            requiredDegree = Some ''Master of Science'', isOverqualified = False\<rparr>"
proof -
  have c: "fst (candidate_education
          \<lparr>totalYearsExperience = None,
           education = [EduStr ''Diploma in IT'', EduDict (Degree ''B.Tech CSE'')],
           skills = []\<rparr>) = 2"
    by code_simp
  have r: "snd (normalize_education (Some ''Master of Science'')) = 3" by code_simp
  have e: "check_education_match
       \<lparr>totalYearsExperience = None,
        education = [EduStr ''Diploma in IT'', EduDict (Degree ''B.Tech CSE'')],
        skills = []\<rparr>
       \<lparr>minExperienceYears = None, requiredEducation = Degree ''Master of Science'',
        requiredSkills = []\<rparr>
     = Inr \<lparr>met = False, score = 16, percentage = 66, candidateDegree = ''B.Tech CSE'',
            requiredDegree = Some ''Master of Science'', isOverqualified = False\<rparr>"
    by code_simp
  from check_education_match_score
         [of "\<lparr>totalYearsExperience = None,
                education = [EduStr ''Diploma in IT'', EduDict (Degree ''B.Tech CSE'')],
                skills = []\<rparr>"
             "\<lparr>minExperienceYears = None, requiredEducation = Degree ''Master of Science'',
                requiredSkills = []\<rparr>"]
  have "\<exists>res. check_education_match
       \<lparr>totalYearsExperience = None,
        education = [EduStr ''Diploma in IT'', EduDict (Degree ''B.Tech CSE'')],
        skills = []\<rparr>
       \<lparr>minExperienceYears = None, requiredEducation = Degree ''Master of Science'',
        requiredSkills = []\<rparr> = Inr res \<and> \<not> met res"
    by (auto simp: c get_degree_def r)
  with c r e show ?thesis by simp
qed

text \<open>The two loops of the skills check collect the required skills that some candidate
  skill matches, in order.\<close>

lemma best_candidate_found:
  "fst (best_candidate g r cands acc) = (fst acc \<or> (\<exists>c\<in>set cands. fst (find_skill_match g c r)))"
proof (induction cands arbitrary: acc)
  case Nil
  then show ?case by simp
next
  case (Cons c cands)
  obtain found bm bt bc where acc: "acc = (found, bm, bt, bc)" by (cases acc) auto
  obtain is_match mtype conf where m: "find_skill_match g c r = (is_match, mtype, conf)"
    by (cases "find_skill_match g c r") auto
  show ?case unfolding acc by (auto simp: Cons.IH m)
qed

lemma match_required_matched:
  "fst (match_required g cands reqs acc)
   = fst acc @ filter (\<lambda>r. \<exists>c\<in>set cands. fst (find_skill_match g c r)) reqs"
proof (induction reqs arbitrary: acc)
  case Nil
  then show ?case by simp
next
  case (Cons r reqs)
  obtain matched missing details where acc: "acc = (matched, missing, details)" by (cases acc) auto
  obtain found bm bt bc where b: "best_candidate g r cands (False, None, None, f_zero) = (found, bm, bt, bc)"
    by (cases "best_candidate g r cands (False, None, None, f_zero)") auto
  have f: "found = (\<exists>c\<in>set cands. fst (find_skill_match g c r))"
    using best_candidate_found [of g r cands "(False, None, None, f_zero)"] b by simp
  show ?case unfolding acc using f by (simp add: Cons.IH b)
qed

lemma matched_count_le: "matched_count g resume jd \<le> length (required_skills jd)"
  by (simp add: matched_count_def)

lemma check_skills_match_returns: "\<exists>res. check_skills_match g resume jd = Inr res"
proof (cases "required_skills jd = []")
  case True
  then show ?thesis by (simp add: check_skills_match_def Let_def)
next
  case False
  obtain matched missing details
    where mr: "match_required g (candidate_skills resume) (required_skills jd) ([], [], [])
               = (matched, missing, details)"
    by (cases "match_required g (candidate_skills resume) (required_skills jd) ([], [], [])") auto
  have len: "length matched = matched_count g resume jd"
    using match_required_matched [of g "candidate_skills resume" "required_skills jd" "([], [], [])"] mr
    by (simp add: matched_count_def)
  have h: "0 \<le> int (length matched)" "int (length matched) \<le> int (length (required_skills jd))"
      "0 < int (length (required_skills jd))"
    using False matched_count_le [of g resume jd] by (simp_all add: len)
  from int_share_unit [OF h, of 100] obtain pct
    where pct: "int_share (int (length matched)) (int (length (required_skills jd))) 100 = Inr pct"
    by auto
  from int_share_unit [OF h, of 40] obtain sc
    where sc: "int_share (int (length matched)) (int (length (required_skills jd))) 40 = Inr sc"
    by auto
  show ?thesis using False by (simp add: check_skills_match_def Let_def mr pct sc)
qed

text \<open>
  Claim C6. The skills check returns a result. With no required skill (after blank
  entries are dropped) the score is 40 and the dimension is met, whatever the candidate's
  skills are. Otherwise the score is the integer part of matched / required * 40, as the
  source computes it in floats, raised to 1 when at least one required skill is matched
  and 0 when none is; the dimension is met exactly when the percentage, the integer part
  of matched / required * 100, is at least 50.
\<close>

theorem check_skills_match_score:
  "\<exists>res. check_skills_match g resume jd = Inr res
     \<and> (required_skills jd = [] \<longrightarrow> score res = 40 \<and> met res)
     \<and> (required_skills jd \<noteq> [] \<longrightarrow>
          (\<exists>q pct sc. int_div (int (matched_count g resume jd))
                              (int (length (required_skills jd))) = Inr q
              \<and> f_trunc (f_mul q (f_of_int 100)) = Inr pct
              \<and> f_trunc (f_mul q (f_of_int 40)) = Inr sc
              \<and> score res = (if 0 < matched_count g resume jd then max 1 sc else 0)
              \<and> percentage res = pct
              \<and> met res = (50 \<le> pct)))"
proof (cases "required_skills jd = []")
  case True
  then show ?thesis by (simp add: check_skills_match_def Let_def)
next
  case False
  obtain matched missing details
    where mr: "match_required g (candidate_skills resume) (required_skills jd) ([], [], [])
               = (matched, missing, details)"
    by (cases "match_required g (candidate_skills resume) (required_skills jd) ([], [], [])") auto
  have m: "matched = filter (\<lambda>r. \<exists>c\<in>set (candidate_skills resume). fst (find_skill_match g c r))
                            (required_skills jd)"
    using match_required_matched [of g "candidate_skills resume" "required_skills jd" "([], [], [])"] mr
    by simp
  have len: "length matched = matched_count g resume jd"
    by (simp add: m matched_count_def)
  have ne: "(matched \<noteq> []) = (0 < matched_count g resume jd)"
    using len by (cases matched) auto
  have h: "0 \<le> int (matched_count g resume jd)"
      "int (matched_count g resume jd) \<le> int (length (required_skills jd))"
      "0 < int (length (required_skills jd))"
    using False matched_count_le [of g resume jd] by simp_all
  from int_share_unit [OF h, of 100] obtain q pct
    where pct: "int_div (int (matched_count g resume jd)) (int (length (required_skills jd))) = Inr q"
      "f_trunc (f_mul q (f_of_int 100)) = Inr pct"
      "int_share (int (matched_count g resume jd)) (int (length (required_skills jd))) 100 = Inr pct"
    by auto
  from int_share_unit [OF h, of 40] pct(1) obtain sc
    where sc: "f_trunc (f_mul q (f_of_int 40)) = Inr sc"
      "int_share (int (matched_count g resume jd)) (int (length (required_skills jd))) 40 = Inr sc"
    by auto
  have "check_skills_match g resume jd
        = Inr \<lparr>met = (50 \<le> pct),
               score = (if 0 < matched_count g resume jd then max 1 sc else 0),
               percentage = pct,
               candidateSkillsCount = length matched,
               requiredSkillsCount = length (required_skills jd),
               matchedSkills = matched, missingSkills = missing,
               skillMatchDetails = details,
               allCandidateSkills = candidate_skills resume\<rparr>"
    using False by (simp add: check_skills_match_def Let_def mr len ne pct(3) sc(2))
  with False pct(1,2) sc(1) show ?thesis by simp
qed

theorem check_skills_match_score_witness:
  "required_skills example_jd = [''python'', ''docker'', ''sql'', ''Kubernetes'']
   \<and> matched_count skills_analogy_globals example_resume example_jd = 3
   \<and> (\<exists>res. check_skills_match skills_analogy_globals example_resume example_jd = Inr res
          \<and> score res = 30 \<and> percentage res = 75 \<and> met res)"
proof -
  have r: "required_skills example_jd = [''python'', ''docker'', ''sql'', ''Kubernetes'']"
    by code_simp
  have m: "matched_count skills_analogy_globals example_resume example_jd = 3"
    by code_simp
  have q: "int_div 3 4 = Inr (Finite 6755399441055744 (- 53))" by code_simp
  have s: "f_trunc (f_mul (Finite 6755399441055744 (- 53)) (f_of_int 40)) = Inr 30" by code_simp
  have p: "f_trunc (f_mul (Finite 6755399441055744 (- 53)) (f_of_int 100)) = Inr 75" by code_simp
  from check_skills_match_score [of skills_analogy_globals example_resume example_jd]
  show ?thesis by (auto simp: r m q s p)
qed

text \<open>
  Claim C9, as amended. \<open>calculate_match\<close> raises its error
  \<open>Missing resume or JD data\<close> exactly when the resume or the requirement is absent or
  empty: one of the two is enough. When both are present and the candidate's years are
  not negative, it returns a report.
\<close>

theorem calculate_match_raises:
  "(calculate_match g resume_arg jd_arg = Inl (Exception ''Missing resume or JD data''))
     = (falsy resume_arg \<or> falsy jd_arg)
   \<and> (0 \<le> or_zero (totalYearsExperience resume) \<longrightarrow>
        (\<exists>report. calculate_match g (Dict resume) (Dict jd) = Inr report))"
proof (intro conjI impI)
  show "(calculate_match g resume_arg jd_arg = Inl (Exception ''Missing resume or JD data''))
     = (falsy resume_arg \<or> falsy jd_arg)"
  proof (cases "falsy resume_arg \<or> falsy jd_arg")
    case True
    then show ?thesis by (simp add: calculate_match_def)
  next
    case False
    then obtain r j where args: "resume_arg = Dict r" "jd_arg = Dict j"
      by (cases resume_arg; cases jd_arg) (auto simp: falsy_def)
    obtain ed where ed: "check_education_match r j = Inr ed"
      using check_education_match_returns by blast
    obtain sk where sk: "check_skills_match g r j = Inr sk"
      using check_skills_match_returns by blast
    have "calculate_match g resume_arg jd_arg \<noteq> Inl (Exception ''Missing resume or JD data'')"
    proof (cases "check_experience_match r j")
      case (Inl e)
      from check_experience_match_error [OF Inl] Inl show ?thesis
        by (auto simp: calculate_match_def args falsy_def)
    next
      case (Inr ex)
      then show ?thesis by (simp add: calculate_match_def args falsy_def ed sk)
    qed
    with False show ?thesis by simp
  qed
next
  assume "0 \<le> or_zero (totalYearsExperience resume)"
  from check_experience_match_returns [OF this, of jd] obtain ex
    where ex: "check_experience_match resume jd = Inr ex" by blast
  obtain ed where ed: "check_education_match resume jd = Inr ed"
    using check_education_match_returns by blast
  obtain sk where sk: "check_skills_match g resume jd = Inr sk"
    using check_skills_match_returns by blast
  show "\<exists>report. calculate_match g (Dict resume) (Dict jd) = Inr report"
    by (simp add: calculate_match_def falsy_def ex ed sk)
qed

theorem calculate_match_raises_witness:
  "falsy (PyNone :: jd_data py_arg)
   \<and> calculate_match skills_analogy_globals (Dict example_resume) PyNone
       = Inl (Exception ''Missing resume or JD data'')
   \<and> (0::int) \<le> or_zero (totalYearsExperience example_resume)
   \<and> (case calculate_match skills_analogy_globals (Dict example_resume) (Dict example_jd) of
         Inl e \<Rightarrow> False
       | Inr report \<Rightarrow> overallScore report = 90 \<and> assessment_of report = Excellent_Match)"
proof -
  have y: "(0::int) \<le> or_zero (totalYearsExperience example_resume)" by code_simp
  have e: "(case calculate_match skills_analogy_globals (Dict example_resume) (Dict example_jd) of
         Inl e \<Rightarrow> False
       | Inr report \<Rightarrow> overallScore report = 90 \<and> assessment_of report = Excellent_Match)"
    by code_simp
  from calculate_match_raises
         [of skills_analogy_globals "Dict example_resume" "PyNone" example_resume example_jd]
       y e
  show ?thesis by (simp add: falsy_def)
qed

text \<open>
  The claim as it was stated fails with one input present and the other absent.
\<close>

theorem calculate_match_one_absent:
  "calculate_match skills_analogy_globals (Dict example_resume) PyNone
   = Inl (Exception ''Missing resume or JD data'')"
  by (simp add: calculate_match_def falsy_def)

text \<open>
  With both inputs present, an exception of the experience check leaves
  \<open>calculate_match\<close>: for \<open>- 10 ^ 307\<close> years against 1 the quotient times 100 is the
  negative infinity, and its conversion to an integer raises \<open>OverflowError\<close>.
\<close>

lemma calculate_match_overflow:
  "calculate_match skills_analogy_globals
     (Dict \<lparr>totalYearsExperience = Some (- (10 ^ 307)), education = [], skills = []\<rparr>)
     (Dict \<lparr>minExperienceYears = Some 1, requiredEducation = Absent, requiredSkills = []\<rparr>)
   = Inl OverflowError"
  by code_simp

section \<open>The experience aggregator (json\_parser.py)\<close>

text \<open>
  A \<open>datetime\<close> is its number of microseconds since 0001-01-01 00:00, the resolution of
  the Python type. \<open>datetime.strptime\<close> of the standard library is a parameter: it maps a
  string and a format to a datetime, or to \<open>None\<close> where it raises \<open>ValueError\<close>. So is the
  current time \<open>today\<close>. An entry of the experience list is a dictionary with its
  \<open>startDate\<close> and \<open>endDate\<close> strings (\<open>None\<close> when absent or null), or something that is
  not a dictionary.
\<close>

type_synonym datetime = int

definition day_us :: int where
  "day_us = 86400000000"

definition timedelta_days :: "datetime \<Rightarrow> datetime \<Rightarrow> int" where
  "timedelta_days start_date end_date = (end_date - start_date) div day_us"

datatype exp_item = ExpDict (startDate: "string option") (endDate: "string option") | ExpOther

definition present_keywords :: "string list" where
  "present_keywords = [''present'', ''current'', ''ongoing'', ''till now'', ''today'',
                       ''till present'', ''till date'', ''current role'']"

definition no_date_keywords :: "string list" where
  "no_date_keywords = [''no date'', ''n/a'', ''not available'', ''unknown'', ''--'', ''none'']"

definition date_formats :: "string list" where
  "date_formats =
     [''%Y'', ''%Y-%m'', ''%Y-%m-%d'', ''%m/%Y'', ''%m-%Y'', ''%m/%d/%Y'', ''%d-%m-%Y'',
      ''%B %Y'', ''%b %Y'', ''%B %d, %Y'', ''%b %d, %Y'', ''%d %B %Y'', ''%d %b %Y'',
      ''%b'' @ [CHR 0x27] @ ''%y'', ''%B'' @ [CHR 0x27] @ ''%y'', ''%m.%Y'', ''%Y.%m'']"

fun first_parse :: "(string \<Rightarrow> string \<Rightarrow> datetime option) \<Rightarrow> string \<Rightarrow> string list \<Rightarrow> datetime option" where
  "first_parse strptime date_str [] = None"
| "first_parse strptime date_str (fmt # fmts) =
     (case strptime date_str fmt of
        Some d \<Rightarrow> Some d
      | None \<Rightarrow> first_parse strptime date_str fmts)"

definition parse_date_safely ::
  "(string \<Rightarrow> string \<Rightarrow> datetime option) \<Rightarrow> string option \<Rightarrow> datetime option" where
  "parse_date_safely strptime date_str =
     (case date_str of
        None \<Rightarrow> None
      | Some d \<Rightarrow>
          if d = [] then None
          else if list_ex (contains (strip (lower d))) present_keywords then None
          else if list_ex (contains (strip (lower d))) no_date_keywords then None
          else (case first_parse strptime (strip d) date_formats of
                  Some t \<Rightarrow> Some t
                | None \<Rightarrow>
                    if CHR 0x27 \<in> set (strip d)
                    then strptime (filter (\<lambda>c. c \<noteq> CHR 0x27) (strip d)) ''%b%y''
                    else None))"

definition period_of ::
  "(string \<Rightarrow> string \<Rightarrow> datetime option) \<Rightarrow> datetime \<Rightarrow> exp_item \<Rightarrow> (datetime \<times> datetime) option" where
  "period_of strptime today entry =
     (case entry of
        ExpOther \<Rightarrow> None
      | ExpDict sd ed \<Rightarrow>
          (case parse_date_safely strptime sd of
             None \<Rightarrow> None
           | Some start_date \<Rightarrow>
               if today < start_date then None
               else let end_date = (case parse_date_safely strptime ed of
                                      None \<Rightarrow> today | Some e \<Rightarrow> e)
                    in if end_date < start_date then None
                       else if timedelta_days start_date end_date < 30
                               \<or> 60 * 365 < timedelta_days start_date end_date then None
                       else Some (start_date, end_date)))"

fun merge_from :: "datetime \<times> datetime \<Rightarrow> (datetime \<times> datetime) list \<Rightarrow> (datetime \<times> datetime) list" where
  "merge_from running [] = [running]"
| "merge_from running (current # rest) =
     (if fst current \<le> snd running
      then merge_from (fst running, max (snd running) (snd current)) rest
      else running # merge_from current rest)"

definition merged_periods :: "(datetime \<times> datetime) list \<Rightarrow> (datetime \<times> datetime) list" where
  "merged_periods periods =
     (case sort_key fst periods of [] \<Rightarrow> [] | first # rest \<Rightarrow> merge_from first rest)"

definition total_days :: "(datetime \<times> datetime) list \<Rightarrow> int" where
  "total_days merged = sum_list (map (\<lambda>(s, e). timedelta_days s e) merged)"

definition calculate_experience_from_details ::
  "(string \<Rightarrow> string \<Rightarrow> datetime option) \<Rightarrow> datetime \<Rightarrow> exp_item list \<Rightarrow> int \<times> int" where
  "calculate_experience_from_details strptime today experience_details =
     (if experience_details = [] then (0, 0)
      else let periods = List.map_filter (period_of strptime today) experience_details
           in if periods = [] then (0, 0)
              else (total_days (merged_periods periods) div 365,
                    (total_days (merged_periods periods) mod 365) div 30))"


subsection \<open>Reference values for the properties\<close>

text \<open>
  What the merged intervals cover, and that they are apart from each other; then the
  two entries of the example of the specification. The instants that a list of intervals
  covers are read on the real line, so that two intervals one microsecond apart are not
  taken for one interval.
\<close>

fun separated :: "(datetime \<times> datetime) list \<Rightarrow> bool" where
  "separated [] = True"
| "separated [p] = True"
| "separated (p # q # ps) = (snd p < fst q \<and> separated (q # ps))"

definition covered :: "(datetime \<times> datetime) list \<Rightarrow> real set" where
  "covered ps = (\<Union>(s, e)\<in>set ps. {real_of_int s..real_of_int e})"

definition is_leap :: "int \<Rightarrow> bool" where
  "is_leap y = (y mod 4 = 0 \<and> (y mod 100 \<noteq> 0 \<or> y mod 400 = 0))"

definition days_before_month :: "int \<Rightarrow> int \<Rightarrow> int" where
  "days_before_month y m =
     sum_list (take (nat (m - 1))
       [31, if is_leap y then 29 else 28, 31, 30, 31, 30, 31, 31, 30, 31, 30, 31])"

definition ymd_to_ordinal :: "int \<Rightarrow> int \<Rightarrow> int \<Rightarrow> int" where
  \<comment> \<open>\<open>date(y, m, d).toordinal()\<close>: day 1 is 0001-01-01\<close>
  "ymd_to_ordinal y m d =
     (y - 1) * 365 + (y - 1) div 4 - (y - 1) div 100 + (y - 1) div 400
     + days_before_month y m + d"

definition midnight :: "int \<Rightarrow> int \<Rightarrow> int \<Rightarrow> datetime" where
  "midnight y m d = (ymd_to_ordinal y m d - 1) * day_us"

definition example_strptime :: "string \<Rightarrow> string \<Rightarrow> datetime option" where
  \<comment> \<open>\<open>datetime.strptime\<close> on the four dates of the example of the specification: a
      year-month string is parsed by \<open>%Y-%m\<close>, to the first of the month at midnight, and
      by no other format of the list\<close>
  "example_strptime date_str fmt =
     (if fmt = ''%Y-%m''
      then map_of [(''2018-01'', midnight 2018 1 1), (''2019-01'', midnight 2019 1 1),
                   (''2020-01'', midnight 2020 1 1), (''2021-01'', midnight 2021 1 1)] date_str
      else None)"

definition example_today :: datetime where
  \<comment> \<open>noon of 2026-11-04\<close>
  "example_today = midnight 2026 11 4 + 12 * 3600 * 1000000"

definition example_details :: "exp_item list" where
  "example_details =
     [ExpDict (Some ''2018-01'') (Some ''2020-01''), ExpDict (Some ''2019-01'') (Some ''2021-01'')]"


section \<open>Properties of the experience aggregator\<close>

lemma covered_Cons: "covered (p # ps) = {real_of_int (fst p)..real_of_int (snd p)} \<union> covered ps"
  by (auto simp: covered_def)

lemma merge_from_hd: "fst (hd (merge_from running ps)) = fst running"
  by (induction running ps rule: merge_from.induct) auto

lemma merge_from_ne: "merge_from running ps \<noteq> []"
  by (induction running ps rule: merge_from.induct) auto

lemma separated_Cons:
  "qs \<noteq> [] \<Longrightarrow> separated (p # qs) = (snd p < fst (hd qs) \<and> separated qs)"
  by (cases qs) auto

lemma merge_from_separated:
  "sorted (map fst ps) \<Longrightarrow> separated (merge_from running ps)"
proof (induction running ps rule: merge_from.induct)
  case (1 running)
  then show ?case by simp
next
  case (2 running current rest)
  then show ?case
    by (auto simp: separated_Cons merge_from_ne merge_from_hd)
qed

lemma merge_from_covered:
  "sorted (map fst ps) \<Longrightarrow> \<forall>p\<in>set ps. fst running \<le> fst p \<Longrightarrow> fst running \<le> snd running \<Longrightarrow>
   \<forall>p\<in>set ps. fst p \<le> snd p \<Longrightarrow>
   covered (merge_from running ps)
   = {real_of_int (fst running)..real_of_int (snd running)} \<union> covered ps"
proof (induction running ps rule: merge_from.induct)
  case (1 running)
  then show ?case by (simp add: covered_Cons)
next
  case (2 running current rest)
  have cur: "fst running \<le> fst current" "fst current \<le> snd current"
    using "2.prems" by auto
  show ?case
  proof (cases "fst current \<le> snd running")
    case True
    have "covered (merge_from (fst running, max (snd running) (snd current)) rest)
          = {real_of_int (fst running)..real_of_int (max (snd running) (snd current))} \<union> covered rest"
      using "2.prems" True by (subst "2.IH"(1)) auto
    moreover have "{real_of_int (fst running)..real_of_int (max (snd running) (snd current))}
          = {real_of_int (fst running)..real_of_int (snd running)}
            \<union> {real_of_int (fst current)..real_of_int (snd current)}"
    proof -
      have "real_of_int (fst current) \<le> real_of_int (snd running)"
          "real_of_int (fst running) \<le> real_of_int (fst current)"
          "real_of_int (fst current) \<le> real_of_int (snd current)"
          "real_of_int (fst running) \<le> real_of_int (snd running)"
        using True cur "2.prems"(3) by simp_all
      then show ?thesis by (auto simp: max_def)
    qed
    ultimately show ?thesis using True by (auto simp: covered_Cons)
  next
    case False
    have "covered (merge_from current rest)
          = {real_of_int (fst current)..real_of_int (snd current)} \<union> covered rest"
      using "2.prems" False by (subst "2.IH"(2)) auto
    then show ?thesis using False by (auto simp: covered_Cons)
  qed
qed

lemma covered_set_eq: "set ps = set qs \<Longrightarrow> covered ps = covered qs"
  by (simp add: covered_def)

lemma merged_periods_covered:
  assumes "\<forall>p\<in>set periods. fst p \<le> snd p"
  shows "covered (merged_periods periods) = covered periods"
proof (cases "sort_key fst periods")
  case Nil
  then have "periods = []" by (metis length_0_conv length_sort)
  then show ?thesis by (simp add: merged_periods_def)
next
  case (Cons first rest)
  have srt: "sorted (map fst (first # rest))" using Cons sorted_sort_key [of fst periods] by simp
  have st: "set (first # rest) = set periods" using Cons set_sort [of fst periods] by simp
  have "covered (merge_from first rest)
        = {real_of_int (fst first)..real_of_int (snd first)} \<union> covered rest"
    using srt st assms by (intro merge_from_covered) auto
  then show ?thesis
    using covered_set_eq [OF st] by (simp add: merged_periods_def Cons covered_Cons)
qed

lemma merged_periods_separated: "separated (merged_periods periods)"
proof (cases "sort_key fst periods")
  case Nil
  then show ?thesis by (simp add: merged_periods_def)
next
  case (Cons first rest)
  have "sorted (map fst (first # rest))" using Cons sorted_sort_key [of fst periods] by simp
  then show ?thesis by (simp add: merged_periods_def Cons merge_from_separated)
qed

lemma period_of_valid:
  assumes "period_of strptime today entry = Some (s, e)"
  shows "\<exists>sd ed. entry = ExpDict sd ed \<and> parse_date_safely strptime sd = Some s
           \<and> e = (case parse_date_safely strptime ed of None \<Rightarrow> today | Some t \<Rightarrow> t)
           \<and> s \<le> today \<and> s \<le> e \<and> 30 \<le> timedelta_days s e \<and> timedelta_days s e \<le> 60 * 365"
  using assms
  by (auto simp: period_of_def Let_def split: exp_item.splits option.splits if_splits)

lemma period_of_complete:
  assumes "parse_date_safely strptime sd = Some s"
    and "e = (case parse_date_safely strptime ed of None \<Rightarrow> today | Some t \<Rightarrow> t)"
    and "s \<le> today" "s \<le> e" "30 \<le> timedelta_days s e" "timedelta_days s e \<le> 60 * 365"
  shows "period_of strptime today (ExpDict sd ed) = Some (s, e)"
  using assms by (auto simp: period_of_def Let_def split: option.splits)

lemma set_map_filter: "set (List.map_filter f xs) = {y. \<exists>x\<in>set xs. f x = Some y}"
  by (induction xs) (auto simp: List.map_filter_def)


text \<open>
  Claim C7. The aggregator keeps exactly the entries with a parsed start date that is
  not in the future, an end date (today when missing) not before the start, and a
  duration of at least 30 days and at most 60 years of 365 days; no date is parsed from
  a missing or empty string. It sorts the kept intervals by start date and merges each
  interval whose start is not after the end of the running merge. The merged intervals
  are apart from each other and cover exactly the instants the kept intervals cover, so
  no time is counted twice. With \<open>days\<close> the sum over the merged intervals of the whole
  days between start and end (the microseconds divided by 86400000000), the result is
  \<open>days div 365\<close> years and \<open>(days mod 365) div 30\<close> months.
\<close>

theorem calculate_experience_merges:
  fixes strptime today details
  defines "periods \<equiv> List.map_filter (period_of strptime today) details"
  shows "calculate_experience_from_details strptime today details
           = (sum_list (map (\<lambda>(s, e). (e - s) div 86400000000) (merged_periods periods)) div 365,
              (sum_list (map (\<lambda>(s, e). (e - s) div 86400000000) (merged_periods periods)) mod 365)
                div 30)
       \<and> set periods
           = {(s, e). \<exists>sd ed. ExpDict sd ed \<in> set details
                \<and> parse_date_safely strptime sd = Some s
                \<and> e = (case parse_date_safely strptime ed of None \<Rightarrow> today | Some t \<Rightarrow> t)
                \<and> s \<le> today \<and> s \<le> e
                \<and> 30 \<le> (e - s) div 86400000000 \<and> (e - s) div 86400000000 \<le> 21900}
       \<and> parse_date_safely strptime None = None
       \<and> parse_date_safely strptime (Some []) = None
       \<and> merged_periods periods
           = (case sort_key fst periods of [] \<Rightarrow> [] | first # rest \<Rightarrow> merge_from first rest)
       \<and> separated (merged_periods periods)
       \<and> covered (merged_periods periods) = covered periods"
proof -
  have valid: "\<forall>p\<in>set periods. fst p \<le> snd p"
    unfolding periods_def set_map_filter using period_of_valid by fastforce
  have td: "total_days merged = sum_list (map (\<lambda>(s, e). (e - s) div 86400000000) merged)" for merged
    by (simp add: total_days_def timedelta_days_def day_us_def)
  have res: "calculate_experience_from_details strptime today details
           = (total_days (merged_periods periods) div 365,
              (total_days (merged_periods periods) mod 365) div 30)"
  proof (cases "periods = []")
    case True
    then show ?thesis
      by (simp add: calculate_experience_from_details_def periods_def [symmetric] Let_def
                    merged_periods_def total_days_def)
  next
    case False
    then have "details \<noteq> []" by (auto simp: periods_def List.map_filter_def)
    with False show ?thesis
      by (simp add: calculate_experience_from_details_def periods_def [symmetric] Let_def)
  qed
  have chr: "set periods
           = {(s, e). \<exists>sd ed. ExpDict sd ed \<in> set details
                \<and> parse_date_safely strptime sd = Some s
                \<and> e = (case parse_date_safely strptime ed of None \<Rightarrow> today | Some t \<Rightarrow> t)
                \<and> s \<le> today \<and> s \<le> e
                \<and> 30 \<le> timedelta_days s e \<and> timedelta_days s e \<le> 60 * 365}"
  proof (intro set_eqI iffI)
    fix p assume "p \<in> set periods"
    then obtain x where x: "x \<in> set details" "period_of strptime today x = Some p"
      by (auto simp: periods_def set_map_filter)
    obtain s e where p: "p = (s, e)" by (cases p)
    from period_of_valid [OF x(2) [unfolded p]] x(1) p
    show "p \<in> {(s, e). \<exists>sd ed. ExpDict sd ed \<in> set details
                \<and> parse_date_safely strptime sd = Some s
                \<and> e = (case parse_date_safely strptime ed of None \<Rightarrow> today | Some t \<Rightarrow> t)
                \<and> s \<le> today \<and> s \<le> e
                \<and> 30 \<le> timedelta_days s e \<and> timedelta_days s e \<le> 60 * 365}"
      by auto
  next
    fix p assume "p \<in> {(s, e). \<exists>sd ed. ExpDict sd ed \<in> set details
                \<and> parse_date_safely strptime sd = Some s
                \<and> e = (case parse_date_safely strptime ed of None \<Rightarrow> today | Some t \<Rightarrow> t)
                \<and> s \<le> today \<and> s \<le> e
                \<and> 30 \<le> timedelta_days s e \<and> timedelta_days s e \<le> 60 * 365}"
    then obtain s e sd ed where h: "p = (s, e)" "ExpDict sd ed \<in> set details"
        "parse_date_safely strptime sd = Some s"
        "e = (case parse_date_safely strptime ed of None \<Rightarrow> today | Some t \<Rightarrow> t)"
        "s \<le> today" "s \<le> e" "30 \<le> timedelta_days s e" "timedelta_days s e \<le> 60 * 365"
      by auto
    have "period_of strptime today (ExpDict sd ed) = Some (s, e)"
      using h(3-8) by (rule period_of_complete)
    with h(1,2) show "p \<in> set periods" by (auto simp: periods_def set_map_filter)
  qed
  have none: "parse_date_safely strptime None = None" "parse_date_safely strptime (Some []) = None"
    by (simp_all add: parse_date_safely_def)
  have mp: "merged_periods periods
           = (case sort_key fst periods of [] \<Rightarrow> [] | first # rest \<Rightarrow> merge_from first rest)"
    by (simp add: merged_periods_def)
  show ?thesis
    using res [unfolded td] chr [unfolded timedelta_days_def day_us_def] none mp
      merged_periods_separated [of periods] merged_periods_covered [OF valid]
    by simp
qed

theorem calculate_experience_merges_witness:
  "calculate_experience_from_details example_strptime example_today example_details = (3, 0)
   \<and> merged_periods (List.map_filter (period_of example_strptime example_today) example_details)
       = [(midnight 2018 1 1, midnight 2021 1 1)]
   \<and> (midnight 2021 1 1 - midnight 2018 1 1) div 86400000000 = 1096
   \<and> set (List.map_filter (period_of example_strptime example_today) example_details)
       = {(midnight 2018 1 1, midnight 2020 1 1), (midnight 2019 1 1, midnight 2021 1 1)}"
proof -
  have m: "merged_periods (List.map_filter (period_of example_strptime example_today) example_details)
       = [(midnight 2018 1 1, midnight 2021 1 1)]"
    by code_simp
  have d: "(midnight 2021 1 1 - midnight 2018 1 1) div 86400000000 = 1096"
    by code_simp
  have p: "List.map_filter (period_of example_strptime example_today) example_details
       = [(midnight 2018 1 1, midnight 2020 1 1), (midnight 2019 1 1, midnight 2021 1 1)]"
    by code_simp
  from calculate_experience_merges [of example_strptime example_today example_details]
  have "calculate_experience_from_details example_strptime example_today example_details
          = (1096 div 365, (1096 mod 365) div 30)"
    by (simp add: m d)
  with m d p show ?thesis by simp
qed

section \<open>The recovery pipeline (json\_parser.py)\<close>

definition drop_newline :: "string \<Rightarrow> string" where
  \<comment> \<open>the optional \<open>\n\<close> at the end of the two fence patterns\<close>
  "drop_newline s = (case s of [] \<Rightarrow> [] | c # cs \<Rightarrow> if c = CHR 0x0A then cs else c # cs)"

lemma length_drop_newline: "length (drop_newline s) \<le> length s"
  by (cases s) (auto simp: drop_newline_def)

function sub_fence :: "char \<Rightarrow> string \<Rightarrow> string \<Rightarrow> string" where
  \<comment> \<open>\<open>re.sub(pat + r'\n?', '', s)\<close> for the literal pattern \<open>p # ps\<close>: every occurrence,
      from the left, with the newline that follows it\<close>
  "sub_fence p ps [] = []"
| "sub_fence p ps (c # cs) =
     (if startswith (c # cs) (p # ps)
      then sub_fence p ps (drop_newline (drop (length ps) cs))
      else c # sub_fence p ps cs)"
  by pat_completeness auto
termination
proof (relation "measure (\<lambda>(p, ps, s). length s)", goal_cases)
  case 1
  then show ?case by simp
next
  case (2 p ps c cs)
  have "length (drop_newline (drop (length ps) cs)) \<le> length cs"
    by (rule order_trans [OF length_drop_newline]) simp
  then show ?case by simp
next
  case (3 p ps c cs)
  then show ?case by simp
qed

definition strip_fences :: "string \<Rightarrow> string" where
  \<comment> \<open>the three substitutions that remove markdown code fences and backticks\<close>
  "strip_fences s =
     filter (\<lambda>c. c \<noteq> CHR ''`'')
       (sub_fence CHR ''`'' ''``'' (sub_fence CHR ''`'' ''``json'' s))"

definition find_char :: "char \<Rightarrow> string \<Rightarrow> nat option" where
  \<comment> \<open>\<open>s.find(c)\<close>, with \<open>None\<close> for -1\<close>
  "find_char c s = (if c \<in> set s then Some (length (takeWhile (\<lambda>d. d \<noteq> c) s)) else None)"

definition rfind_char :: "char \<Rightarrow> string \<Rightarrow> nat option" where
  \<comment> \<open>\<open>s.rfind(c)\<close>, with \<open>None\<close> for -1\<close>
  "rfind_char c s =
     (if c \<in> set s then Some (length s - Suc (length (takeWhile (\<lambda>d. d \<noteq> c) (rev s)))) else None)"

definition open_count :: "char \<Rightarrow> char \<Rightarrow> string \<Rightarrow> int" where
  \<comment> \<open>\<open>s.count(opener) - s.count(closer)\<close>\<close>
  "open_count opener closer s = int (count_char opener s) - int (count_char closer s)"

definition repeat :: "char \<Rightarrow> int \<Rightarrow> string" where
  \<comment> \<open>\<open>c * n\<close>, empty for \<open>n \<le> 0\<close>\<close>
  "repeat c n = replicate (nat n) c"

definition drop_incomplete_field :: "string \<Rightarrow> string" where
  \<comment> \<open>the first step of \<open>auto_complete_json\<close>: a short tail after the last comma with an
      odd number of quotes is cut off, comma included\<close>
  "drop_incomplete_field partial_json =
     (case rfind_char CHR '','' partial_json of
        None \<Rightarrow> partial_json
      | Some last_comma \<Rightarrow>
          let after_comma = strip (drop last_comma partial_json)
          in if length after_comma < 100 \<and> CHR 0x22 \<in> set after_comma
                \<and> count_char CHR 0x22 after_comma mod 2 \<noteq> 0
             then take last_comma partial_json
             else partial_json)"

definition auto_complete_json :: "string \<Rightarrow> string" where
  "auto_complete_json partial_json =
     (let kept = drop_incomplete_field partial_json;
          open_braces = open_count CHR ''{'' CHR ''}'' kept;
          open_brackets = open_count CHR ''['' CHR '']'' kept
      in kept @ (if 0 < open_brackets then repeat CHR '']'' open_brackets else [])
              @ (if 0 < open_braces then repeat CHR ''}'' open_braces else []))"

definition extract_json_string :: "string \<Rightarrow> string option" where
  "extract_json_string response_text =
     (if response_text = [] then None
      else let text = strip_fences (strip response_text)
           in case find_char CHR ''{'' text of
                None \<Rightarrow> None
              | Some start_idx \<Rightarrow>
                  (case rfind_char CHR ''}'' text of
                     None \<Rightarrow>
                       (let json_str = auto_complete_json (drop start_idx text)
                        in if json_str = [] then None else Some json_str)
                   | Some end_idx \<Rightarrow>
                       if end_idx \<le> start_idx then None
                       else Some (take (Suc end_idx - start_idx) (drop start_idx text))))"

fun last_balanced :: "string \<Rightarrow> nat \<Rightarrow> int \<Rightarrow> int \<Rightarrow> nat \<Rightarrow> nat" where
  \<comment> \<open>the scan of \<open>aggressive_json_recovery\<close>, on
      \<open>(i, depth_braces, depth_brackets, last_balanced_pos)\<close>\<close>
  "last_balanced [] i depth_braces depth_brackets last_balanced_pos = last_balanced_pos"
| "last_balanced (char # rest) i depth_braces depth_brackets last_balanced_pos =
     (let braces = (if char = CHR ''{'' then depth_braces + 1
                    else if char = CHR ''}'' then depth_braces - 1 else depth_braces);
          brackets = (if char = CHR ''{'' \<or> char = CHR ''}'' then depth_brackets
                      else if char = CHR ''['' then depth_brackets + 1
                      else if char = CHR '']'' then depth_brackets - 1 else depth_brackets)
      in last_balanced rest (Suc i) braces brackets
           (if 0 \<le> braces \<and> 0 \<le> brackets then i else last_balanced_pos))"

definition aggressive_json_recovery :: "string \<Rightarrow> string" where
  "aggressive_json_recovery json_str =
     (let from_brace = (case find_char CHR ''{'' json_str of
                          None \<Rightarrow> json_str
                        | Some start \<Rightarrow> if 0 < start then drop start json_str else json_str);
          cut = take (Suc (last_balanced from_brace 0 0 0 0)) from_brace;
          open_braces = open_count CHR ''{'' CHR ''}'' cut;
          open_brackets = open_count CHR ''['' CHR '']'' cut
      in if 0 < open_braces \<or> 0 < open_brackets
         then cut @ repeat CHR ''}'' open_braces @ repeat CHR '']'' open_brackets
         else cut)"


subsection \<open>Strict JSON\<close>

text \<open>
  What \<open>json.loads\<close> of the standard library accepts in its default mode, as a
  recogniser: the JSON grammar with the constants \<open>NaN\<close>, \<open>Infinity\<close> and \<open>-Infinity\<close>,
  no control character inside a string, nothing but whitespace after the value. The
  recursion into containers is bounded by a counter that starts at twice the length of
  the text plus one, which is never used up (lemma \<open>json_loads_decides\<close>); running out of
  it is a result of its own, so that \<open>Rejected\<close> always means a syntax error. The limit
  that Python sets to the depth of the nesting is not modelled.
\<close>

datatype scan = Rejected | Out_of_fuel | Accepted string

definition json_ws :: "char \<Rightarrow> bool" where
  "json_ws c = (c \<in> set [CHR '' '', CHR 0x09, CHR 0x0A, CHR 0x0D])"

definition skip_ws :: "string \<Rightarrow> string" where
  "skip_ws s = dropWhile json_ws s"

definition is_digit :: "char \<Rightarrow> bool" where
  "is_digit c = (c \<in> set ''0123456789'')"

definition is_hex :: "char \<Rightarrow> bool" where
  "is_hex c = (c \<in> set ''0123456789abcdefABCDEF'')"

function scan_string :: "string \<Rightarrow> string option" where
  \<comment> \<open>the characters after an opening quote, up to and including the closing quote\<close>
  "scan_string [] = None"
| "scan_string (c # cs) =
     (if c = CHR 0x22 then Some cs
      else if c = CHR 0x5C then
        (case cs of
           [] \<Rightarrow> None
         | e # es \<Rightarrow>
             if e = CHR ''u''
             then (if 4 \<le> length es \<and> list_all is_hex (take 4 es)
                   then scan_string (drop 4 es) else None)
             else if e \<in> set [CHR 0x22, CHR 0x5C, CHR ''/'', CHR ''b'', CHR ''f'', CHR ''n'',
                               CHR ''r'', CHR ''t'']
             then scan_string es else None)
      else if (of_char c :: nat) < 32 then None
      else scan_string cs)"
  by pat_completeness auto
termination
  by (relation "measure length") auto

definition scan_number :: "string \<Rightarrow> string option" where
  \<comment> \<open>\<open>-?(0|[1-9]\d*)(\.\d+)?([eE][-+]?\d+)?\<close>, the longest match at the start\<close>
  "scan_number s =
     (let unsigned = (if s \<noteq> [] \<and> hd s = CHR ''-'' then tl s else s)
      in if unsigned = [] \<or> \<not> is_digit (hd unsigned) then None
         else let after_int = (if hd unsigned = CHR ''0'' then tl unsigned
                               else dropWhile is_digit unsigned);
                  after_frac = (if 2 \<le> length after_int \<and> hd after_int = CHR ''.''
                                   \<and> is_digit (after_int ! 1)
                                then dropWhile is_digit (tl after_int) else after_int);
                  after_sign = (if 2 \<le> length after_frac \<and> after_frac ! 1 \<in> set ''+-''
                                then drop 2 after_frac else drop 1 after_frac)
              in if after_frac \<noteq> [] \<and> hd after_frac \<in> set ''eE''
                    \<and> after_sign \<noteq> [] \<and> is_digit (hd after_sign)
                 then Some (dropWhile is_digit after_sign) else Some after_frac)"

definition scan_literal :: "string \<Rightarrow> scan" where
  \<comment> \<open>the values that are neither a string nor a container, in the order of the scanner\<close>
  "scan_literal s =
     (if startswith s ''null'' then Accepted (drop 4 s)
      else if startswith s ''true'' then Accepted (drop 4 s)
      else if startswith s ''false'' then Accepted (drop 5 s)
      else case scan_number s of
             Some rest \<Rightarrow> Accepted rest
           | None \<Rightarrow>
               if startswith s ''NaN'' then Accepted (drop 3 s)
               else if startswith s ''Infinity'' then Accepted (drop 8 s)
               else if startswith s ''-Infinity'' then Accepted (drop 9 s)
               else Rejected)"

fun parse_value :: "nat \<Rightarrow> string \<Rightarrow> scan"
  and parse_members :: "nat \<Rightarrow> string \<Rightarrow> scan"
  and parse_elements :: "nat \<Rightarrow> string \<Rightarrow> scan" where
  "parse_value 0 s = Out_of_fuel"
| "parse_value (Suc n) s =
     (if s = [] then Rejected
      else if hd s = CHR 0x22 then
        (case scan_string (tl s) of None \<Rightarrow> Rejected | Some rest \<Rightarrow> Accepted rest)
      else if hd s = CHR ''{'' then
        (if startswith (skip_ws (tl s)) ''}'' then Accepted (tl (skip_ws (tl s)))
         else parse_members n (skip_ws (tl s)))
      else if hd s = CHR ''['' then
        (if startswith (skip_ws (tl s)) '']'' then Accepted (tl (skip_ws (tl s)))
         else parse_elements n (skip_ws (tl s)))
      else scan_literal s)"
| "parse_members 0 s = Out_of_fuel"
| "parse_members (Suc n) s =
     (if \<not> startswith s [CHR 0x22] then Rejected
      else case scan_string (tl s) of
             None \<Rightarrow> Rejected
           | Some after_key \<Rightarrow>
               if \<not> startswith (skip_ws after_key) '':'' then Rejected
               else (case parse_value n (skip_ws (tl (skip_ws after_key))) of
                       Accepted rest \<Rightarrow>
                         if startswith (skip_ws rest) ''}'' then Accepted (tl (skip_ws rest))
                         else if startswith (skip_ws rest) '',''
                         then parse_members n (skip_ws (tl (skip_ws rest)))
                         else Rejected
                     | failed \<Rightarrow> failed))"
| "parse_elements 0 s = Out_of_fuel"
| "parse_elements (Suc n) s =
     (case parse_value n s of
        Accepted rest \<Rightarrow>
          if startswith (skip_ws rest) '']'' then Accepted (tl (skip_ws rest))
          else if startswith (skip_ws rest) '',''
          then parse_elements n (skip_ws (tl (skip_ws rest)))
          else Rejected
      | failed \<Rightarrow> failed)"

definition json_loads :: "string \<Rightarrow> scan" where
  \<comment> \<open>\<open>Accepted []\<close> when \<open>json.loads\<close> returns a value, \<open>Rejected\<close> when it raises
      \<open>JSONDecodeError\<close>\<close>
  "json_loads s =
     (case parse_value (Suc (2 * length s)) (skip_ws s) of
        Accepted rest \<Rightarrow> if skip_ws rest = [] then Accepted [] else Rejected
      | failed \<Rightarrow> failed)"


section \<open>Properties of the recovery pipeline\<close>

text \<open>The counter of the recogniser is never used up.\<close>

lemma skip_ws_le: "length (skip_ws s) \<le> length s"
  by (simp add: skip_ws_def length_dropWhile_le)

lemma startswith_Cons: "startswith s (p # ps) \<Longrightarrow> s \<noteq> [] \<and> hd s = p"
  by (cases s) auto

lemma scan_string_le: "scan_string s = Some rest \<Longrightarrow> length rest \<le> length s"
proof (induction s rule: scan_string.induct)
  case 1
  then show ?case by simp
next
  case (2 c cs)
  show ?case
  proof (cases "c = CHR 0x22")
    case True
    with "2.prems" show ?thesis by simp
  next
    case q: False
    show ?thesis
    proof (cases "c = CHR 0x5C")
      case True
      show ?thesis
      proof (cases cs)
        case Nil
        with "2.prems" q True show ?thesis by simp
      next
        case (Cons e es)
        show ?thesis
        proof (cases "e = CHR ''u''")
          case u: True
          with "2.prems" q True Cons
          have h: "4 \<le> length es" "list_all is_hex (take 4 es)" "scan_string (drop 4 es) = Some rest"
            by (auto split: if_splits)
          from "2.IH"(1) [OF q True Cons u _ h(3)] h(1,2)
          have "length rest \<le> length (drop 4 es)" by simp
          then show ?thesis using Cons by simp
        next
          case nu: False
          with "2.prems" q True Cons
          have h: "e \<in> set [CHR 0x22, CHR 0x5C, CHR ''/'', CHR ''b'', CHR ''f'', CHR ''n'',
                               CHR ''r'', CHR ''t'']" "scan_string es = Some rest"
            by (auto split: if_splits)
          from "2.IH"(2) [OF q True Cons nu h(1) h(2)]
          show ?thesis using Cons by simp
        qed
      qed
    next
      case False
      with "2.prems" q have h: "\<not> (of_char c :: nat) < 32" "scan_string cs = Some rest"
        by (auto split: if_splits)
      from "2.IH"(3) [OF q False h(1) h(2)] show ?thesis by simp
    qed
  qed
qed

lemma scan_number_le: "scan_number s = Some rest \<Longrightarrow> length rest \<le> length s"
proof -
  have d: "length (dropWhile P xs) \<le> length xs" for P and xs :: string
    by (rule length_dropWhile_le)
  define unsigned where "unsigned = (if s \<noteq> [] \<and> hd s = CHR ''-'' then tl s else s)"
  define after_int where "after_int = (if hd unsigned = CHR ''0'' then tl unsigned
                               else dropWhile is_digit unsigned)"
  define after_frac where "after_frac = (if 2 \<le> length after_int \<and> hd after_int = CHR ''.''
                                   \<and> is_digit (after_int ! 1)
                                then dropWhile is_digit (tl after_int) else after_int)"
  define after_sign where "after_sign = (if 2 \<le> length after_frac \<and> after_frac ! 1 \<in> set ''+-''
                                then drop 2 after_frac else drop 1 after_frac)"
  have u: "length unsigned \<le> length s" by (simp add: unsigned_def)
  have i: "length after_int \<le> length unsigned"
    by (simp add: after_int_def length_dropWhile_le)
  have "length (dropWhile is_digit (tl after_int)) \<le> length (tl after_int)" by (rule d)
  then have f: "length after_frac \<le> length after_int"
    unfolding after_frac_def by auto
  have g: "length after_sign \<le> length after_frac" by (simp add: after_sign_def)
  have e: "length (dropWhile is_digit after_sign) \<le> length after_sign" by (rule d)
  have eq: "scan_number s =
     (if unsigned = [] \<or> \<not> is_digit (hd unsigned) then None
      else if after_frac \<noteq> [] \<and> hd after_frac \<in> set ''eE''
                    \<and> after_sign \<noteq> [] \<and> is_digit (hd after_sign)
           then Some (dropWhile is_digit after_sign) else Some after_frac)"
    unfolding scan_number_def Let_def unsigned_def after_int_def after_frac_def after_sign_def
    by (rule refl)
  assume "scan_number s = Some rest"
  then have "rest = dropWhile is_digit after_sign \<or> rest = after_frac"
    unfolding eq by (simp split: if_splits)
  with u i f g e show ?thesis by auto
qed

lemma scan_literal_le: "scan_literal s = Accepted rest \<Longrightarrow> length rest \<le> length s"
  by (auto simp: scan_literal_def split: if_splits option.splits dest: scan_number_le)

lemma scan_literal_decides: "scan_literal s \<noteq> Out_of_fuel"
  by (auto simp: scan_literal_def split: option.splits)


lemma after_separator:
  assumes "startswith (skip_ws rest) [c]"
  shows "Suc (length (skip_ws (tl (skip_ws rest)))) \<le> length rest"
proof -
  from startswith_Cons [OF assms] have "skip_ws rest \<noteq> []" by simp
  then have "Suc (length (tl (skip_ws rest))) = length (skip_ws rest)" by simp
  with skip_ws_le [of "tl (skip_ws rest)"] skip_ws_le [of rest] show ?thesis by simp
qed

lemma after_closer: "length (tl (skip_ws rest)) \<le> length rest"
  using skip_ws_le [of rest] by simp

lemma parse_le:
  "parse_value n s = Accepted rest \<Longrightarrow> length rest \<le> length s"
  "parse_members n s = Accepted rest \<Longrightarrow> length rest \<le> length s"
  "parse_elements n s = Accepted rest \<Longrightarrow> length rest \<le> length s"
proof (induction n s and n s and n s arbitrary: rest and rest and rest
       rule: parse_value_parse_members_parse_elements.induct)
  case (1 s)
  then show ?case by simp
next
  case (2 n s)
  have ws: "length (skip_ws (tl s)) \<le> length s"
    using skip_ws_le [of "tl s"] by simp
  show ?case
  proof (cases "s = []")
    case True
    with "2.prems" show ?thesis by simp
  next
    case ne: False
    show ?thesis
    proof (cases "hd s = CHR 0x22")
      case True
      with "2.prems" ne have "scan_string (tl s) = Some rest"
        by (simp split: option.splits)
      from scan_string_le [OF this] show ?thesis by simp
    next
      case q: False
      show ?thesis
      proof (cases "hd s = CHR ''{''")
        case True
        show ?thesis
        proof (cases "startswith (skip_ws (tl s)) ''}''")
          case e: True
          with "2.prems" ne q True have "rest = tl (skip_ws (tl s))" by simp
          with after_closer [of "tl s"] show ?thesis by simp
        next
          case e: False
          with "2.prems" ne q True have "parse_members n (skip_ws (tl s)) = Accepted rest" by simp
          from "2.IH"(1) [OF ne q True e this] ws show ?thesis by simp
        qed
      next
        case b: False
        show ?thesis
        proof (cases "hd s = CHR ''[''")
          case True
          show ?thesis
          proof (cases "startswith (skip_ws (tl s)) '']''")
            case e: True
            with "2.prems" ne q b True have "rest = tl (skip_ws (tl s))" by simp
            with after_closer [of "tl s"] show ?thesis by simp
          next
            case e: False
            with "2.prems" ne q b True have "parse_elements n (skip_ws (tl s)) = Accepted rest" by simp
            from "2.IH"(2) [OF ne q b True e this] ws show ?thesis by simp
          qed
        next
          case False
          with "2.prems" ne q b have "scan_literal s = Accepted rest" by simp
          then show ?thesis by (rule scan_literal_le)
        qed
      qed
    qed
  qed
next
  case (3 s)
  then show ?case by simp
next
  case (4 n s)
  show ?case
  proof (cases "startswith s [CHR 0x22]")
    case False
    with "4.prems" show ?thesis by simp
  next
    case q: True
    show ?thesis
    proof (cases "scan_string (tl s)")
      case None
      with "4.prems" q show ?thesis by simp
    next
      case (Some after_key)
      have k: "length after_key \<le> length s" using scan_string_le [OF Some] by simp
      show ?thesis
      proof (cases "startswith (skip_ws after_key) '':''")
        case False
        with "4.prems" q Some show ?thesis by simp
      next
        case c: True
        have kv: "length (skip_ws (tl (skip_ws after_key))) \<le> length after_key"
          using after_separator [OF c] by simp
        show ?thesis
        proof (cases "parse_value n (skip_ws (tl (skip_ws after_key)))")
          case Rejected
          with "4.prems" q Some c show ?thesis by simp
        next
          case Out_of_fuel
          with "4.prems" q Some c show ?thesis by simp
        next
          case (Accepted value_rest)
          from "4.IH"(1) [OF _ Some _ Accepted] q c
          have v: "length value_rest \<le> length (skip_ws (tl (skip_ws after_key)))" by simp
          show ?thesis
          proof (cases "startswith (skip_ws value_rest) ''}''")
            case True
            with "4.prems" q Some c Accepted have "rest = tl (skip_ws value_rest)" by simp
            with after_closer [of value_rest] v kv k show ?thesis by simp
          next
            case e: False
            show ?thesis
            proof (cases "startswith (skip_ws value_rest) '',''")
              case False
              with "4.prems" q Some c Accepted e show ?thesis by simp
            next
              case True
              with "4.prems" q Some c Accepted e
              have m: "parse_members n (skip_ws (tl (skip_ws value_rest))) = Accepted rest" by simp
              from "4.IH"(2) [OF _ Some _ Accepted e True m] q c
              have "length rest \<le> length (skip_ws (tl (skip_ws value_rest)))" by simp
              with after_separator [OF True] v kv k show ?thesis by simp
            qed
          qed
        qed
      qed
    qed
  qed
next
  case (5 s)
  then show ?case by simp
next
  case (6 n s)
  show ?case
  proof (cases "parse_value n s")
    case Rejected
    with "6.prems" show ?thesis by simp
  next
    case Out_of_fuel
    with "6.prems" show ?thesis by simp
  next
    case (Accepted value_rest)
    from "6.IH"(1) [OF Accepted] have v: "length value_rest \<le> length s" .
    show ?thesis
    proof (cases "startswith (skip_ws value_rest) '']''")
      case True
      with "6.prems" Accepted have "rest = tl (skip_ws value_rest)" by simp
      with after_closer [of value_rest] v show ?thesis by simp
    next
      case e: False
      show ?thesis
      proof (cases "startswith (skip_ws value_rest) '',''")
        case False
        with "6.prems" Accepted e show ?thesis by simp
      next
        case True
        with "6.prems" Accepted e
        have m: "parse_elements n (skip_ws (tl (skip_ws value_rest))) = Accepted rest" by simp
        from "6.IH"(2) [OF Accepted e True m]
        have "length rest \<le> length (skip_ws (tl (skip_ws value_rest)))" .
        with after_separator [OF True] v show ?thesis by simp
      qed
    qed
  qed
qed


lemma parse_decides:
  "2 * length s + 1 \<le> n \<Longrightarrow> parse_value n s \<noteq> Out_of_fuel"
  "2 * length s + 1 \<le> n \<Longrightarrow> parse_members n s \<noteq> Out_of_fuel"
  "2 * length s + 2 \<le> n \<Longrightarrow> parse_elements n s \<noteq> Out_of_fuel"
proof (induction n s and n s and n s
       rule: parse_value_parse_members_parse_elements.induct)
  case (1 s)
  then show ?case by simp
next
  case (2 n s)
  show ?case
  proof (cases "s = []")
    case True
    then show ?thesis by simp
  next
    case ne: False
    then have ws: "Suc (length (skip_ws (tl s))) \<le> length s"
      using skip_ws_le [of "tl s"] by (cases s) auto
    show ?thesis
    proof (cases "hd s = CHR 0x22")
      case True
      with ne show ?thesis by (simp split: option.splits)
    next
      case q: False
      show ?thesis
      proof (cases "hd s = CHR ''{''")
        case True
        show ?thesis
        proof (cases "startswith (skip_ws (tl s)) ''}''")
          case e: True
          with ne q True show ?thesis by simp
        next
          case e: False
          have "2 * length (skip_ws (tl s)) + 1 \<le> n" using ws "2.prems" by simp
          from "2.IH"(1) [OF ne q True e this] ne q True e show ?thesis by simp
        qed
      next
        case b: False
        show ?thesis
        proof (cases "hd s = CHR ''[''")
          case True
          show ?thesis
          proof (cases "startswith (skip_ws (tl s)) '']''")
            case e: True
            with ne q b True show ?thesis by simp
          next
            case e: False
            have "2 * length (skip_ws (tl s)) + 2 \<le> n" using ws "2.prems" by simp
            from "2.IH"(2) [OF ne q b True e this] ne q b True e show ?thesis by simp
          qed
        next
          case False
          with ne q b show ?thesis by (simp add: scan_literal_decides)
        qed
      qed
    qed
  qed
next
  case (3 s)
  then show ?case by simp
next
  case (4 n s)
  show ?case
  proof (cases "startswith s [CHR 0x22]")
    case False
    then show ?thesis by simp
  next
    case q: True
    show ?thesis
    proof (cases "scan_string (tl s)")
      case None
      with q show ?thesis by simp
    next
      case (Some after_key)
      have s1: "Suc (length after_key) \<le> length s"
        using scan_string_le [OF Some] startswith_Cons [OF q] by (cases s) auto
      show ?thesis
      proof (cases "startswith (skip_ws after_key) '':''")
        case False
        with q Some show ?thesis by simp
      next
        case c: True
        have k: "Suc (length (skip_ws (tl (skip_ws after_key)))) \<le> length after_key"
          using after_separator [OF c] .
        have "2 * length (skip_ws (tl (skip_ws after_key))) + 1 \<le> n"
          using k s1 "4.prems" by simp
        from "4.IH"(1) [OF _ Some _ this] q c
        have v: "parse_value n (skip_ws (tl (skip_ws after_key))) \<noteq> Out_of_fuel" by simp
        show ?thesis
        proof (cases "parse_value n (skip_ws (tl (skip_ws after_key)))")
          case Rejected
          with q Some c show ?thesis by simp
        next
          case Out_of_fuel
          with v show ?thesis by simp
        next
          case (Accepted value_rest)
          have vl: "length value_rest \<le> length after_key"
            using parse_le(1) [OF Accepted] k by simp
          show ?thesis
          proof (cases "startswith (skip_ws value_rest) ''}''")
            case True
            with q Some c Accepted show ?thesis by simp
          next
            case e: False
            show ?thesis
            proof (cases "startswith (skip_ws value_rest) '',''")
              case False
              with q Some c Accepted e show ?thesis by simp
            next
              case True
              have "2 * length (skip_ws (tl (skip_ws value_rest))) + 1 \<le> n"
                using after_separator [OF True] vl s1 "4.prems" by simp
              from "4.IH"(2) [OF _ Some _ Accepted e True this] q c
              have "parse_members n (skip_ws (tl (skip_ws value_rest))) \<noteq> Out_of_fuel" by simp
              with q Some c Accepted e True show ?thesis by simp
            qed
          qed
        qed
      qed
    qed
  qed
next
  case (5 s)
  then show ?case by simp
next
  case (6 n s)
  have "2 * length s + 1 \<le> n" using "6.prems" by simp
  from "6.IH"(1) [OF this] have v: "parse_value n s \<noteq> Out_of_fuel" .
  show ?case
  proof (cases "parse_value n s")
    case Rejected
    then show ?thesis by simp
  next
    case Out_of_fuel
    with v show ?thesis by simp
  next
    case (Accepted value_rest)
    have vl: "length value_rest \<le> length s" using parse_le(1) [OF Accepted] .
    show ?thesis
    proof (cases "startswith (skip_ws value_rest) '']''")
      case True
      with Accepted show ?thesis by simp
    next
      case e: False
      show ?thesis
      proof (cases "startswith (skip_ws value_rest) '',''")
        case False
        with Accepted e show ?thesis by simp
      next
        case True
        have "2 * length (skip_ws (tl (skip_ws value_rest))) + 2 \<le> n"
          using after_separator [OF True] vl "6.prems" by simp
        from "6.IH"(2) [OF Accepted e True this]
        have "parse_elements n (skip_ws (tl (skip_ws value_rest))) \<noteq> Out_of_fuel" .
        with Accepted e True show ?thesis by simp
      qed
    qed
  qed
qed

lemma json_loads_decides: "json_loads s \<noteq> Out_of_fuel"
proof -
  have "2 * length (skip_ws s) + 1 \<le> Suc (2 * length s)" using skip_ws_le [of s] by simp
  from parse_decides(1) [OF this]
  have "parse_value (Suc (2 * length s)) (skip_ws s) \<noteq> Out_of_fuel" .
  then show ?thesis
    by (cases "parse_value (Suc (2 * length s)) (skip_ws s)")
       (simp_all only: json_loads_def scan.case scan.distinct if_split, auto)
qed

lemma count_char_Nil: "count_char c [] = 0"
  by (simp add: count_char_def)

lemma count_char_append: "count_char c (xs @ ys) = count_char c xs + count_char c ys"
  by (simp add: count_char_def)

lemma count_char_repeat: "count_char c (repeat d n) = (if c = d then nat n else 0)"
  by (simp add: count_char_def repeat_def)

lemma count_char_absent: "c \<notin> set s \<Longrightarrow> count_char c s = 0"
  by (induction s) (auto simp: count_char_def)

lemma rfind_char_index:
  assumes "rfind_char c s = Some i"
  shows "i < length s \<and> s ! i = c"
proof -
  have mem: "c \<in> set s" using assms by (auto simp: rfind_char_def split: if_splits)
  define k where "k = length (takeWhile (\<lambda>d. d \<noteq> c) (rev s))"
  have i: "i = length s - Suc k" using assms mem by (simp add: rfind_char_def k_def)
  have neq: "takeWhile (\<lambda>d. d \<noteq> c) (rev s) \<noteq> rev s"
    using mem by (simp add: takeWhile_eq_all_conv)
  have "k \<noteq> length (rev s)"
  proof
    assume "k = length (rev s)"
    then have "take k (rev s) = rev s" by simp
    then show False using neq takeWhile_eq_take [of "\<lambda>d. d \<noteq> c" "rev s"] by (simp add: k_def)
  qed
  moreover have "k \<le> length (rev s)" unfolding k_def by (rule length_takeWhile_le)
  ultimately have k: "k < length s" by simp
  have "rev s ! k = c"
    using nth_length_takeWhile [of "\<lambda>d. d \<noteq> c" "rev s"] k unfolding k_def by simp
  then have "s ! (length s - Suc k) = c" using k by (simp add: rev_nth)
  then show ?thesis using i k by simp
qed

lemma drop_incomplete_field_keeps:
  assumes "partial_json \<noteq> []" and "hd partial_json = CHR ''{''"
  shows "drop_incomplete_field partial_json \<noteq> []
       \<and> hd (drop_incomplete_field partial_json) = CHR ''{''
       \<and> set (drop_incomplete_field partial_json) \<subseteq> set partial_json"
proof (cases "rfind_char CHR '','' partial_json")
  case None
  then show ?thesis using assms by (simp add: drop_incomplete_field_def)
next
  case (Some i)
  have idx: "i < length partial_json" "partial_json ! i = CHR '',''"
    using rfind_char_index [OF Some] by auto
  have "partial_json ! 0 = CHR ''{''" using assms by (simp add: hd_conv_nth)
  then have pos: "0 < i" using idx(2) by (cases i) auto
  have "take i partial_json \<noteq> []" using pos assms(1) by simp
  moreover have "hd (take i partial_json) = CHR ''{''" using pos assms by (cases partial_json) (auto simp: take_Cons')
  moreover have "set (take i partial_json) \<subseteq> set partial_json" by (rule set_take_subset)
  ultimately show ?thesis using assms by (auto simp: drop_incomplete_field_def Some Let_def)
qed

lemma auto_complete_json_balanced:
  assumes "partial_json \<noteq> []" and "hd partial_json = CHR ''{''" and "CHR ''}'' \<notin> set partial_json"
  shows "auto_complete_json partial_json \<noteq> []
       \<and> hd (auto_complete_json partial_json) = CHR ''{''
       \<and> count_char CHR ''{'' (auto_complete_json partial_json)
           = count_char CHR ''}'' (auto_complete_json partial_json)
       \<and> count_char CHR ''['' (auto_complete_json partial_json)
           \<le> count_char CHR '']'' (auto_complete_json partial_json)"
proof -
  define kept where "kept = drop_incomplete_field partial_json"
  have k: "kept \<noteq> []" "hd kept = CHR ''{''" "set kept \<subseteq> set partial_json"
    using drop_incomplete_field_keeps [OF assms(1,2)] by (auto simp: kept_def)
  have nc: "count_char CHR ''}'' kept = 0" using k(3) assms(3) by (auto intro: count_char_absent)
  have "CHR ''{'' \<in> set kept" using k(1,2) by (cases kept) auto
  then have pos: "0 < count_char CHR ''{'' kept"
    by (induction kept) (auto simp: count_char_def)
  show ?thesis
    using k(1,2) nc pos
    by (auto simp: auto_complete_json_def kept_def [symmetric] Let_def open_count_def
                   count_char_append count_char_repeat count_char_Nil)
qed

lemma find_char_drop:
  assumes "find_char c s = Some i"
  shows "drop i s \<noteq> [] \<and> hd (drop i s) = c"
proof -
  have mem: "c \<in> set s" and i: "i = length (takeWhile (\<lambda>d. d \<noteq> c) s)"
    using assms by (auto simp: find_char_def split: if_splits)
  have d: "drop i s = dropWhile (\<lambda>d. d \<noteq> c) s"
    unfolding i by (rule dropWhile_eq_drop [symmetric])
  have ne: "dropWhile (\<lambda>d. d \<noteq> c) s \<noteq> []" using mem by auto
  with hd_dropWhile [OF ne] show ?thesis by (simp add: d)
qed


text \<open>
  Claim C1, as amended. For every truncated input, that is, every text that after
  stripping and fence removal holds an opening brace and no closing brace, the extraction
  returns a text that starts with the brace, holds as many closing braces as opening
  braces and at least as many closing brackets as opening brackets. Whether it parses
  depends on the nesting of the input; the closers are appended by count.
\<close>

theorem extract_json_string_truncated:
  assumes "response_text \<noteq> []"
    and "CHR ''{'' \<in> set (strip_fences (strip response_text))"
    and "CHR ''}'' \<notin> set (strip_fences (strip response_text))"
  shows "\<exists>json_str. extract_json_string response_text = Some json_str
           \<and> hd json_str = CHR ''{''
           \<and> count_char CHR ''{'' json_str = count_char CHR ''}'' json_str
           \<and> count_char CHR ''['' json_str \<le> count_char CHR '']'' json_str"
proof -
  define cleaned where "cleaned = strip_fences (strip response_text)"
  obtain start_idx where f: "find_char CHR ''{'' cleaned = Some start_idx"
    using assms(2) by (auto simp: find_char_def cleaned_def)
  have r: "rfind_char CHR ''}'' cleaned = None"
    using assms(3) by (simp add: rfind_char_def cleaned_def)
  have tail: "drop start_idx cleaned \<noteq> []" "hd (drop start_idx cleaned) = CHR ''{''"
    using find_char_drop [OF f] by auto
  have "CHR ''}'' \<notin> set (drop start_idx cleaned)"
    using assms(3) set_drop_subset [of start_idx cleaned] by (auto simp: cleaned_def)
  from auto_complete_json_balanced [OF tail this]
  show ?thesis
    using assms(1) by (simp add: extract_json_string_def cleaned_def [symmetric] f r Let_def)
qed


theorem extract_json_string_truncated_witness:
  \<open>extract_json_string ''{"a": [1, 2'' = Some ''{"a": [1, 2]}''
   \<and> json_loads ''{"a": [1, 2]}'' = Accepted []\<close>
proof -
  have t: \<open>strip_fences (strip ''{"a": [1, 2'') = ''{"a": [1, 2''\<close> by code_simp
  have e: \<open>extract_json_string ''{"a": [1, 2'' = Some ''{"a": [1, 2]}''\<close> by code_simp
  have j: \<open>json_loads ''{"a": [1, 2]}'' = Accepted []\<close> by code_simp
  have \<open>\<exists>json_str. extract_json_string ''{"a": [1, 2'' = Some json_str
           \<and> hd json_str = CHR ''{''
           \<and> count_char CHR ''{'' json_str = count_char CHR ''}'' json_str
           \<and> count_char CHR ''['' json_str \<le> count_char CHR '']'' json_str\<close>
    by (rule extract_json_string_truncated) (simp_all add: t)
  with e j show ?thesis by simp
qed


text \<open>
  The claim as it was stated fails on a list of objects cut inside an object: nothing
  dangles, the counts are closed, and the result is not JSON.
\<close>

theorem extract_json_string_not_parseable:
  \<open>extract_json_string ''{"a":[{"b":1'' = Some ''{"a":[{"b":1]}}''
   \<and> json_loads ''{"a":[{"b":1]}}'' = Rejected\<close>
  by code_simp


text \<open>
  Claim C2. The completion of a truncated tail appends the brackets before the braces.
  The aggressive recovery appends the braces before the brackets: for the text
  \<open>{"a":[{"b":1}\<close>, which the extraction passes on unchanged, it returns a text that is
  not JSON, where brackets first would give one that is.
\<close>

theorem aggressive_json_recovery_order:
  \<open>auto_complete_json ''{"a":[{"b":1'' = ''{"a":[{"b":1]}}''
   \<and> extract_json_string ''{"a":[{"b":1}'' = Some ''{"a":[{"b":1}''
   \<and> aggressive_json_recovery ''{"a":[{"b":1}'' = ''{"a":[{"b":1}}]''
   \<and> json_loads ''{"a":[{"b":1}}]'' = Rejected
   \<and> json_loads ''{"a":[{"b":1}]}'' = Accepted []\<close>
  by code_simp

section \<open>The schema normaliser (json\_parser.py)\<close>

text \<open>
  A parsed object is a list of keys and JSON values, in insertion order, with distinct
  keys. Four library functions stay parameters: \<open>json.loads\<close>, which returns the parsed
  object or raises (\<open>JSONDecodeError\<close> for a syntax error, and whatever else it raises);
  \<open>re.sub\<close>; \<open>float\<close> on a string (\<open>None\<close> where it raises \<open>ValueError\<close>); and the text
  that \<open>str\<close> gives for a value that is not a string. Every text that reaches
  \<open>json.loads\<close> here starts with an opening brace, so a value it returns is an object.
  For an integer or a float value the conversion \<open>int(float(str(val)))\<close> is determined:
  the text of the value reads back as the nearest float, an infinity makes \<open>int\<close> raise
  \<open>OverflowError\<close>, a NaN \<open>ValueError\<close>; the text of \<open>True\<close>, \<open>None\<close>, a list or an object
  is not a number.
\<close>

datatype json = JNull | JBool bool | JInt int | JFloat pyfloat | JStr string
  | JList "json list" | JObj "(string \<times> json) list"

type_synonym py_dict = "(string \<times> json) list"

record py_library =
  py_json_loads :: "string \<Rightarrow> exn + py_dict"
  py_re_sub :: "string \<Rightarrow> string \<Rightarrow> string \<Rightarrow> string"
  py_float :: "string \<Rightarrow> pyfloat option"
  py_repr :: "json \<Rightarrow> string"

subsection \<open>From the response text to the parsed object\<close>

definition backslash :: string where
  "backslash = [CHR 0x5C]"

definition double_quote :: string where
  "double_quote = [CHR 0x22]"

function collapse_whitespace :: "char option \<Rightarrow> bool \<Rightarrow> string \<Rightarrow> string" where
  \<comment> \<open>the loop of fix 7, on the character before the position, \<open>in_string\<close> and the text from
      the position on: a double_quote that no backslash precedes toggles \<open>in_string\<close>, a run of
      whitespace outside a string becomes one space\<close>
  "collapse_whitespace prev in_string [] = []"
| "collapse_whitespace prev in_string (c # cs) =
     (if c = CHR 0x22 \<and> prev \<noteq> Some (CHR 0x5C)
      then c # collapse_whitespace (Some c) (\<not> in_string) cs
      else if \<not> in_string \<and> isspace c
      then CHR '' '' # collapse_whitespace (Some (last (c # takeWhile isspace cs))) in_string
                       (dropWhile isspace cs)
      else c # collapse_whitespace (Some c) in_string cs)"
  by pat_completeness auto
termination
proof (relation "measure (\<lambda>(prev, in_string, s). length s)", goal_cases)
  case 1
  then show ?case by simp
next
  case (2 prev in_string c cs)
  then show ?case by simp
next
  case (3 prev in_string c cs)
  have "length (dropWhile isspace cs) \<le> length cs" by (rule length_dropWhile_le)
  then show ?case by simp
next
  case (4 prev in_string c cs)
  then show ?case by simp
qed

definition fix_json_string :: "py_library \<Rightarrow> string \<Rightarrow> string" where
  \<comment> \<open>for a text that is not empty. Fix 1 replaces \<open>"\<close> by itself twice, then \<open>'\<close> by \<open>"\<close>.
      The patterns of fixes 2 to 6 are, in order: \<open>,(\s*[}\]])\<close>; \<open>\bNone\b\<close>, \<open>\bTrue\b\<close>,
      \<open>\bFalse\b\<close>; \<open>(\{|,)\s*([a-zA-Z_][a-zA-Z0-9_]*)\s*:\<close>; \<open>:\s*"([^"]*?)(?=,|\}|\])\<close>;
      \<open>}\s*{\<close>, \<open>\]\s*\[\<close>\<close>
  "fix_json_string L json_str =
     (let fix1 = replace_char (CHR 0x27) double_quote (replace_char (CHR 0x22) double_quote
                   (replace_char (CHR 0x22) double_quote json_str));
          fix2 = py_re_sub L ('',('' @ backslash @ ''s*[}'' @ backslash @ '']])'')
                             (backslash @ ''1'') fix1;
          fix3 = py_re_sub L (backslash @ ''bFalse'' @ backslash @ ''b'') ''false''
                   (py_re_sub L (backslash @ ''bTrue'' @ backslash @ ''b'') ''true''
                      (py_re_sub L (backslash @ ''bNone'' @ backslash @ ''b'') ''null'' fix2));
          fix4 = py_re_sub L (''('' @ backslash @ ''{|,)'' @ backslash
                                @ ''s*([a-zA-Z_][a-zA-Z0-9_]*)'' @ backslash @ ''s*:'')
                             (backslash @ ''1'' @ double_quote @ backslash @ ''2'' @ double_quote @ '':'') fix3;
          fix5 = py_re_sub L ('':'' @ backslash @ ''s*'' @ double_quote @ ''([^'' @ double_quote @ '']*?)(?=,|''
                                @ backslash @ ''}|'' @ backslash @ ''])'')
                             ('': '' @ double_quote @ backslash @ ''1'' @ double_quote) fix4;
          fix6 = py_re_sub L (backslash @ '']'' @ backslash @ ''s*'' @ backslash @ ''['') ''],[''
                   (py_re_sub L (''}'' @ backslash @ ''s*{'') ''},{'' fix5);
          fix7 = collapse_whitespace None False fix6
      in filter (\<lambda>char. 32 \<le> (of_char char :: nat) \<or> char \<in> set [CHR 0x0A, CHR 0x0D, CHR 0x09])
                fix7)"

definition try_parse_json :: "py_library \<Rightarrow> string \<Rightarrow> exn + py_dict option" where
  \<comment> \<open>each \<open>except json.JSONDecodeError\<close> catches that exception only; \<open>Inr None\<close> is the
      return value \<open>None\<close>\<close>
  "try_parse_json L json_str =
     (if json_str = [] then Inr None
      else case py_json_loads L json_str of
             Inr data \<Rightarrow> Inr (Some data)
           | Inl e \<Rightarrow>
               if e \<noteq> JSONDecodeError then Inl e
               else (case py_json_loads L (fix_json_string L json_str) of
                       Inr data \<Rightarrow> Inr (Some data)
                     | Inl e \<Rightarrow>
                         if e \<noteq> JSONDecodeError then Inl e
                         else (case py_json_loads L (aggressive_json_recovery json_str) of
                                 Inr data \<Rightarrow> Inr (Some data)
                               | Inl e \<Rightarrow> if e \<noteq> JSONDecodeError then Inl e else Inr None)))"

definition clean_json_response :: "py_library \<Rightarrow> string \<Rightarrow> exn + py_dict option" where
  "clean_json_response L response_text =
     (if response_text = [] then Inr None
      else case extract_json_string response_text of
             None \<Rightarrow> Inr None
           | Some json_str \<Rightarrow> if json_str = [] then Inr None else try_parse_json L json_str)"

subsection \<open>From the parsed object to the record\<close>

fun truthy :: "json \<Rightarrow> bool" where
  "truthy JNull = False"
| "truthy (JBool b) = b"
| "truthy (JInt n) = (n \<noteq> 0)"
| "truthy (JFloat x) = (\<not> f_is_zero x)"
| "truthy (JStr t) = (t \<noteq> [])"
| "truthy (JList xs) = (xs \<noteq> [])"
| "truthy (JObj kvs) = (kvs \<noteq> [])"

definition str_of :: "py_library \<Rightarrow> json \<Rightarrow> string" where
  \<comment> \<open>\<open>str(v)\<close>\<close>
  "str_of L v = (case v of JStr t \<Rightarrow> t | _ \<Rightarrow> py_repr L v)"

definition coerce_int :: "py_library \<Rightarrow> json \<Rightarrow> exn + int" where
  \<comment> \<open>\<open>int(float(str(val).replace(',', '')))\<close>\<close>
  "coerce_int L val =
     (case val of
        JStr t \<Rightarrow>
          (case py_float L (filter (\<lambda>c. c \<noteq> CHR '','') t) of
             None \<Rightarrow> Inl ValueError
           | Some x \<Rightarrow> f_trunc x)
      | JInt n \<Rightarrow> f_trunc (f_of_int n)
      | JFloat x \<Rightarrow> f_trunc x
      | _ \<Rightarrow> Inl ValueError)"

fun dict_set :: "py_dict \<Rightarrow> string \<Rightarrow> json \<Rightarrow> py_dict" where
  \<comment> \<open>\<open>d[k] = v\<close>: a present key keeps its place, a new key goes to the end\<close>
  "dict_set [] k v = [(k, v)]"
| "dict_set ((k', v') # d) k v = (if k' = k then (k, v) # d else (k', v') # dict_set d k v)"

definition dict_update :: "py_dict \<Rightarrow> py_dict \<Rightarrow> py_dict" where
  \<comment> \<open>\<open>d.update(other)\<close>\<close>
  "dict_update d other = foldl (\<lambda>acc (k, v). dict_set acc k v) d other"

definition get_default_structure :: "string \<Rightarrow> py_dict" where
  "get_default_structure doc_type =
     (if doc_type = ''Job Description''
      then [(''jobTitle'', JStr ''Not extracted''),
            (''requiredSkills'', JList []),
            (''minExperienceYears'', JInt 0),
            (''requiredEducation'', JStr ''Not specified''),
            (''preferredSkills'', JList []),
            (''description'', JNull),
            (''responsibilities'', JList []),
            (''benefits'', JList [])]
      else [(''role'', JStr ''Not extracted''),
            (''totalYearsExperience'', JInt 0),
            (''experienceDetails'', JList []),
            (''skills'', JList []),
            (''education'', JList []),
            (''certifications'', JList []),
            (''summary'', JStr ''Error parsing this document'')])"

definition normalize_number :: "py_library \<Rightarrow> py_dict \<Rightarrow> string \<Rightarrow> exn + json" where
  \<comment> \<open>the value stored under a numeric key; \<open>ValueError\<close>, \<open>TypeError\<close> and \<open>AttributeError\<close>
      are caught where the conversion is made, any other exception leaves the block\<close>
  "normalize_number L data key =
     (case map_of data key of
        None \<Rightarrow> Inr (JInt 0)
      | Some val \<Rightarrow>
          if val = JNull then Inr (JInt 0)
          else (case coerce_int L val of
                  Inr n \<Rightarrow> Inr (JInt n)
                | Inl e \<Rightarrow> if e = ValueError then Inr (JInt 0) else Inl e))"

definition skill_entry :: "json \<Rightarrow> json option" where
  "skill_entry skill =
     (case skill of
        JObj kvs \<Rightarrow>
          (case map_of kvs ''name'' of
             Some n \<Rightarrow> if truthy n then Some (JObj kvs) else None
           | None \<Rightarrow> None)
      | JStr t \<Rightarrow> if strip t \<noteq> [] then Some (JObj [(''name'', JStr (strip t))]) else None
      | _ \<Rightarrow> None)"

definition list_or_empty :: "py_dict \<Rightarrow> string \<Rightarrow> py_dict" where
  \<comment> \<open>\<open>if key not in data or not isinstance(data[key], list): data[key] = []\<close>\<close>
  "list_or_empty data key =
     (case map_of data key of Some (JList xs) \<Rightarrow> data | _ \<Rightarrow> dict_set data key (JList []))"

definition string_list :: "py_library \<Rightarrow> py_dict \<Rightarrow> string \<Rightarrow> py_dict" where
  \<comment> \<open>the two skill lists of a job description\<close>
  "string_list L data key =
     dict_set data key
       (JList (case map_of data key of
                 Some (JList xs) \<Rightarrow>
                   map (\<lambda>v. JStr (strip (str_of L v)))
                       (filter (\<lambda>v. truthy v \<and> strip (str_of L v) \<noteq> []) xs)
               | _ \<Rightarrow> []))"

definition validate_data_types :: "py_library \<Rightarrow> py_dict \<Rightarrow> string \<Rightarrow> py_dict" where
  \<comment> \<open>the handler \<open>except Exception\<close> around the body logs the exception and the function
      returns \<open>data\<close>; the only statement that can raise past the inner handler is the first
      one, so \<open>data\<close> is then the object as it came\<close>
  "validate_data_types L data doc_type =
     (if doc_type = ''Resume''
      then (case normalize_number L data ''totalYearsExperience'' of
              Inl e \<Rightarrow> data
            | Inr years \<Rightarrow>
                let d1 = dict_set data ''totalYearsExperience'' years;
                    d2 = dict_set d1 ''skills''
                           (JList (case map_of d1 ''skills'' of
                                     Some (JList xs) \<Rightarrow> List.map_filter skill_entry xs
                                   | _ \<Rightarrow> []));
                    d3 = list_or_empty d2 ''education''
                in list_or_empty d3 ''experienceDetails'')
      else (case normalize_number L data ''minExperienceYears'' of
              Inl e \<Rightarrow> data
            | Inr years \<Rightarrow>
                let d1 = dict_set data ''minExperienceYears'' years;
                    d2 = string_list L d1 ''requiredSkills''
                in string_list L d2 ''preferredSkills''))"

definition is_missing :: "py_dict \<Rightarrow> string \<Rightarrow> bool" where
  \<comment> \<open>\<open>f not in data or data.get(f) is None\<close>\<close>
  "is_missing data f = (case map_of data f of None \<Rightarrow> True | Some v \<Rightarrow> v = JNull)"

definition required_fields :: "string \<Rightarrow> string list" where
  "required_fields doc_type =
     (if doc_type = ''Job Description''
      then [''jobTitle'', ''requiredSkills'', ''minExperienceYears'']
      else [''role'', ''totalYearsExperience'', ''skills'', ''education''])"

definition validate_parsed :: "py_library \<Rightarrow> py_dict option \<Rightarrow> string \<Rightarrow> py_dict" where
  \<comment> \<open>\<open>parse_with_validation\<close> from the value \<open>data\<close> of \<open>clean_json_response\<close> on: \<open>None\<close> or
      the parsed object\<close>
  "validate_parsed L data doc_type =
     (case data of
        None \<Rightarrow> get_default_structure doc_type
      | Some d \<Rightarrow>
          if d = [] then get_default_structure doc_type
          else validate_data_types L
                 (if filter (is_missing d) (required_fields doc_type) \<noteq> []
                  then dict_update (get_default_structure doc_type)
                                   (filter (\<lambda>(k, v). v \<noteq> JNull) d)
                  else d)
                 doc_type)"

definition parse_with_validation :: "py_library \<Rightarrow> string \<Rightarrow> string \<Rightarrow> exn + py_dict" where
  "parse_with_validation L response_text doc_type =
     and_then (clean_json_response L response_text)
       (\<lambda>data. Inr (validate_parsed L data doc_type))"

subsection \<open>Reference values for the properties\<close>












definition converts :: "py_library \<Rightarrow> py_dict option \<Rightarrow> string \<Rightarrow> bool" where
  \<comment> \<open>no value under the key makes the conversion raise \<open>OverflowError\<close>\<close>
  "converts L data key =
     (case data of
        None \<Rightarrow> True
      | Some d \<Rightarrow> list_all (\<lambda>(k, v). k \<noteq> key \<or> coerce_int L v \<noteq> Inl OverflowError) d)"

definition example_text :: string where
  \<open>example_text =
     ''{"role": "Developer", "totalYearsExperience": 3, "skills": [" Python ", {"name": "SQL"}, 4], "education": []}''\<close>

definition example_object :: py_dict where
  "example_object =
     [(''role'', JStr ''Developer''), (''totalYearsExperience'', JInt 3),
      (''skills'', JList [JStr '' Python '', JObj [(''name'', JStr ''SQL'')], JInt 4]),
      (''education'', JList [])]"

definition overflow_text :: string where
  \<open>overflow_text =
     ''{"role": "Developer", "totalYearsExperience": 1e999, "skills": "Python", "education": []}''\<close>

definition overflow_object :: py_dict where
  "overflow_object =
     [(''role'', JStr ''Developer''), (''totalYearsExperience'', JFloat (Inf False)),
      (''skills'', JStr ''Python''), (''education'', JList [])]"

definition example_library :: py_library where
  \<comment> \<open>\<open>json.loads\<close> on the two texts above; any other text is taken for a syntax error\<close>
  "example_library =
     \<lparr>py_json_loads = (\<lambda>s. case map_of [(example_text, example_object),
                                           (overflow_text, overflow_object)] s of
                              Some d \<Rightarrow> Inr d
                            | None \<Rightarrow> Inl JSONDecodeError),
      py_re_sub = (\<lambda>pattern repl s. s),
      py_float = (\<lambda>t. None),
      py_repr = (\<lambda>v. [])\<rparr>"


section \<open>Properties of the schema normaliser\<close>























text \<open>
  An infinite years value raises \<open>OverflowError\<close> inside the conversion; the outer handler
  logs it and returns the object as it came, with nothing validated: \<open>skills\<close> stays a
  string.
\<close>

lemma parse_with_validation_overflow:
  "clean_json_response example_library overflow_text = Inr (Some overflow_object)
   \<and> \<not> converts example_library (Some overflow_object) ''totalYearsExperience''
   \<and> parse_with_validation example_library overflow_text ''Resume'' = Inr overflow_object"
  by code_simp

text \<open>
  An exception of \<open>json.loads\<close> other than \<open>JSONDecodeError\<close> is caught nowhere: it leaves
  \<open>parse_with_validation\<close>.
\<close>

lemma parse_with_validation_lets_through:
  assumes "extract_json_string response_text = Some json_str" and "json_str \<noteq> []"
    and "py_json_loads L json_str = Inl e" and "e \<noteq> JSONDecodeError"
  shows "parse_with_validation L response_text doc_type = Inl e"
proof -
  have "response_text \<noteq> []" using assms(1) by (auto simp: extract_json_string_def)
  then show ?thesis
    using assms
    by (simp add: parse_with_validation_def clean_json_response_def try_parse_json_def)
qed

end
